theory Spec2Isabelle
  imports Main "HOL-Library.Multiset"
begin

section \<open>Python strings\<close>

text \<open>
  A Python \<open>str\<close> is a sequence of Unicode code points. The keyword tables of the
  program hold Arabic phrases next to English ones, so a string is modelled as the list of
  its code points; \<open>asc\<close> turns an ASCII literal into such a list, and a phrase outside
  ASCII is written as its code points.
\<close>

type_synonym pystr = "nat list"

definition asc :: "string \<Rightarrow> pystr" where
  "asc s = map of_char s"

text \<open>\<open>s.startswith(p)\<close>.\<close>

fun startswith :: "pystr \<Rightarrow> pystr \<Rightarrow> bool" where
  "startswith s [] = True"
| "startswith [] (c # p) = False"
| "startswith (d # s) (c # p) = (d = c \<and> startswith s p)"

text \<open>\<open>p in s\<close> on two strings: \<open>p\<close> occurs in \<open>s\<close> as a contiguous run.\<close>

fun py_in :: "pystr \<Rightarrow> pystr \<Rightarrow> bool" where
  "py_in p [] = (p = [])"
| "py_in p (d # s) = (startswith (d # s) p \<or> py_in p s)"

section \<open>The button categorizer (\<open>click_api.py\<close>, \<open>categorize_button\<close>)\<close>

text \<open>The keyword lists, in the order the source writes their entries.\<close>

definition cookie_patterns :: "pystr list" where
  "cookie_patterns =
    [asc ''accept all'', asc ''accept cookies'', asc ''allow all'', asc ''allow cookies'',
     asc ''agree and continue'', asc ''accept and continue'', asc ''cookie'', asc ''consent'',
     asc ''i accept'', asc ''i agree'',
     [0x645, 0x648, 0x627, 0x641, 0x642, 0x20, 0x639, 0x644, 0x649, 0x20,
      0x627, 0x644, 0x643, 0x648, 0x643, 0x64A, 0x632],
     [0x642, 0x628, 0x648, 0x644, 0x20, 0x627, 0x644, 0x643, 0x648, 0x643, 0x64A, 0x632],
     [0x645, 0x648, 0x627, 0x641, 0x642]]"

definition terms_patterns :: "pystr list" where
  "terms_patterns =
    [asc ''accept terms'', asc ''agree terms'', asc ''accept conditions'',
     asc ''agree conditions'', asc ''i agree to terms'', asc ''accept privacy'',
     [0x645, 0x648, 0x627, 0x641, 0x642, 0x20, 0x639, 0x644, 0x649, 0x20,
      0x627, 0x644, 0x634, 0x631, 0x648, 0x637],
     [0x642, 0x628, 0x648, 0x644, 0x20, 0x627, 0x644, 0x634, 0x631, 0x648, 0x637],
     asc ''terms'', asc ''privacy policy'',
     [0x645, 0x648, 0x627, 0x641, 0x642, 0x629, 0x20, 0x639, 0x644, 0x649, 0x20,
      0x627, 0x644, 0x634, 0x631, 0x648, 0x637]]"

definition navigation_patterns :: "pystr list" where
  "navigation_patterns =
    [asc ''next'', asc ''continue'', asc ''proceed'', asc ''forward'',
     [0x627, 0x644, 0x62A, 0x627, 0x644, 0x64A],
     [0x645, 0x62A, 0x627, 0x628, 0x639, 0x629],
     [0x627, 0x644, 0x645, 0x62A, 0x627, 0x628, 0x639, 0x629]]"

text \<open>The source declares this list and then never reads it.\<close>

definition submit_patterns :: "pystr list" where
  "submit_patterns =
    [asc ''submit'', asc ''send'', asc ''post'', asc ''save'',
     [0x625, 0x631, 0x633, 0x627, 0x644], [0x62D, 0x641, 0x638],
     [0x62A, 0x642, 0x62F, 0x64A, 0x645]]"

definition search_patterns :: "pystr list" where
  "search_patterns =
    [asc ''search'', asc ''find'', [0x628, 0x62D, 0x62B],
     [0x627, 0x644, 0x628, 0x62D, 0x62B]]"

definition cancel_patterns :: "pystr list" where
  "cancel_patterns =
    [asc ''cancel'', asc ''close'', asc ''dismiss'', asc ''skip'', asc ''not now'',
     asc ''later'',
     [0x625, 0x644, 0x63A, 0x627, 0x621], [0x625, 0x63A, 0x644, 0x627, 0x642],
     [0x62A, 0x62C, 0x627, 0x647, 0x644], [0x644, 0x627, 0x62D, 0x642, 0x627, 0x64B],
     [0x644, 0x64A, 0x633, 0x20, 0x627, 0x644, 0x622, 0x646]]"

definition choice_patterns :: "pystr list" where
  "choice_patterns =
    [asc ''yes'', asc ''no'', asc ''ok'', asc ''confirm'',
     [0x646, 0x639, 0x645], [0x644, 0x627], [0x645, 0x648, 0x627, 0x641, 0x642],
     [0x62A, 0x623, 0x643, 0x64A, 0x62F]]"

text \<open>
  Each \<open>for pattern in patterns: if pattern in combined_text: return ...\<close> loop leaves
  with the first pattern of the list that occurs in the text.
\<close>

definition first_pattern :: "pystr list \<Rightarrow> pystr \<Rightarrow> pystr option" where
  "first_pattern patterns combined_text =
     find (\<lambda>pattern. py_in pattern combined_text) patterns"

text \<open>The result is the tuple \<open>(category, priority, description)\<close>.\<close>

definition categorize_button :: "pystr \<Rightarrow> pystr \<Rightarrow> pystr \<Rightarrow> pystr \<times> int \<times> pystr" where
  "categorize_button combined_text type_attr tag_name =
    (case first_pattern cookie_patterns combined_text of
      Some pattern \<Rightarrow>
        (asc ''cookie_consent'', 10, asc ''Cookie Consent Button: '' @ pattern)
    | None \<Rightarrow>
    (case first_pattern terms_patterns combined_text of
      Some pattern \<Rightarrow>
        (asc ''terms_agreement'', 9, asc ''Terms Agreement Button: '' @ pattern)
    | None \<Rightarrow>
    if type_attr = asc ''submit'' \<or>
       (tag_name = asc ''button'' \<and> py_in (asc ''submit'') combined_text)
    then (asc ''submit'', 8, asc ''Form Submit Button'')
    else
    (case first_pattern navigation_patterns combined_text of
      Some pattern \<Rightarrow> (asc ''navigation'', 7, asc ''Navigation Button: '' @ pattern)
    | None \<Rightarrow>
    (case first_pattern search_patterns combined_text of
      Some pattern \<Rightarrow> (asc ''search'', 6, asc ''Search Button: '' @ pattern)
    | None \<Rightarrow>
    (case first_pattern choice_patterns combined_text of
      Some pattern \<Rightarrow> (asc ''choice'', 5, asc ''Choice Button: '' @ pattern)
    | None \<Rightarrow>
    (case first_pattern cancel_patterns combined_text of
      Some pattern \<Rightarrow> (asc ''cancel'', 2, asc ''Cancel/Close Button: '' @ pattern)
    | None \<Rightarrow>
      (asc ''general'', 3, asc ''General Button: '' @ take 50 combined_text)))))))"

text \<open>The first two components of the result.\<close>

definition category_of :: "pystr \<times> int \<times> pystr \<Rightarrow> pystr" where
  "category_of r = fst r"

definition priority_of :: "pystr \<times> int \<times> pystr \<Rightarrow> int" where
  "priority_of r = fst (snd r)"

text \<open>Some pattern of the list occurs in the text.\<close>

definition matches :: "pystr list \<Rightarrow> pystr \<Rightarrow> bool" where
  "matches patterns combined_text = list_ex (\<lambda>pattern. py_in pattern combined_text) patterns"

text \<open>The trigger of the third branch: the \<open>type\<close> attribute or a button that says submit.\<close>

definition submit_trigger :: "pystr \<Rightarrow> pystr \<Rightarrow> pystr \<Rightarrow> bool" where
  "submit_trigger combined_text type_attr tag_name =
     (type_attr = asc ''submit'' \<or>
      (tag_name = asc ''button'' \<and> py_in (asc ''submit'') combined_text))"

subsection \<open>The priority table of the specification\<close>

text \<open>
  The specification describes the categorizer as a first-match-wins scan over an ordered
  table of rows (trigger, category, priority), with \<open>general\<close> at priority 3 when no row
  matches. \<open>category_table\<close> is that table, row by row in the specification's order, and
  \<open>table_lookup\<close> is the scan; the program is compared with it below.
\<close>

definition category_table ::
  "((pystr \<Rightarrow> pystr \<Rightarrow> pystr \<Rightarrow> bool) \<times> pystr \<times> int) list" where
  "category_table =
    [(\<lambda>t ty tg. matches cookie_patterns t, asc ''cookie_consent'', 10),
     (\<lambda>t ty tg. matches terms_patterns t, asc ''terms_agreement'', 9),
     (\<lambda>t ty tg. submit_trigger t ty tg, asc ''submit'', 8),
     (\<lambda>t ty tg. matches navigation_patterns t, asc ''navigation'', 7),
     (\<lambda>t ty tg. matches search_patterns t, asc ''search'', 6),
     (\<lambda>t ty tg. matches choice_patterns t, asc ''choice'', 5),
     (\<lambda>t ty tg. matches cancel_patterns t, asc ''cancel'', 2)]"

definition table_lookup :: "pystr \<Rightarrow> pystr \<Rightarrow> pystr \<Rightarrow> pystr \<times> int" where
  "table_lookup t ty tg =
     (case find (\<lambda>row. fst row t ty tg) category_table of
        Some row \<Rightarrow> snd row
      | None \<Rightarrow> (asc ''general'', 3))"

text \<open>Category and priority of a result, as a pair.\<close>

definition cat_prio :: "pystr \<times> int \<times> pystr \<Rightarrow> pystr \<times> int" where
  "cat_prio r = (category_of r, priority_of r)"

text \<open>The eight (category, priority) pairs a result can carry.\<close>
definition result_pairs :: "(pystr \<times> int) list" where
  "result_pairs =
    [(asc ''cookie_consent'', 10), (asc ''terms_agreement'', 9), (asc ''submit'', 8),
     (asc ''navigation'', 7), (asc ''search'', 6), (asc ''choice'', 5),
     (asc ''cancel'', 2), (asc ''general'', 3)]"

section \<open>The page and the clock, as \<open>click_api.py\<close> sees them\<close>

text \<open>
  The program reads the page through element handles, prints progress messages and
  sleeps. The model threads a \<open>world\<close> through every function that does one of these:
  \<open>reads\<close> counts the calls of \<open>input_value()\<close> made so far, \<open>clock\<close> the seconds
  slept so far, and \<open>trace\<close> lists what was printed and clicked, oldest first.
  An \<open>event\<close> stands for one \<open>print\<close> statement of the source, with the values it
  interpolates, or for one \<open>button.click()\<close>:
  \<^item> \<open>Print_waiting\<close>: "Waiting for typing completion...";
  \<^item> \<open>Print_field_empty\<close>: "Field is empty, waiting for typing to start...";
  \<^item> \<open>Print_no_typing\<close>: "No typing detected, proceeding...";
  \<^item> \<open>Print_typing_complete\<close>: "Typing appears to be complete!";
  \<^item> \<open>Print_typing_progress n\<close>: "Typing in progress... Current length: n";
  \<^item> \<open>Print_error_monitoring\<close>: "Error monitoring typing: ...";
  \<^item> \<open>Print_max_wait\<close>: "Maximum wait time reached, proceeding...";
  \<^item> \<open>Print_processing c d\<close>: "Processing c button: d";
  \<^item> \<open>Print_found_input v\<close>: "Found associated input field with value: 'v'";
  \<^item> \<open>Print_clicking c\<close>: "Clicking c button...";
  \<^item> \<open>Print_clicked c\<close>: "Successfully clicked c button!";
  \<^item> \<open>Print_click_error e\<close>: "Error clicking button: e";
  \<^item> \<open>Print_loading u\<close>: "Loading page: u";
  \<^item> \<open>Print_scanning\<close>: "Scanning for buttons...";
  \<^item> \<open>Print_found n\<close>: "Found n button(s)";
  \<^item> \<open>Print_filtered n cs\<close>: "Filtered to n button(s) matching categories: cs";
  \<^item> \<open>Print_button_index i n\<close>: "Processing button i/n";
  \<^item> \<open>Print_category c p\<close>: "Category: c (Priority: p)";
  \<^item> \<open>Print_description d\<close>: "Description: d";
  \<^item> \<open>Print_rescanning\<close>: "Page may have changed, rescanning...";
  \<^item> \<open>Do_click t\<close>: the click on the button whose text is \<open>t\<close> went through.
\<close>

datatype event =
    Print_waiting
  | Print_field_empty
  | Print_no_typing
  | Print_typing_complete
  | Print_typing_progress nat
  | Print_error_monitoring
  | Print_max_wait
  | Print_processing pystr pystr
  | Print_found_input pystr
  | Print_clicking pystr
  | Print_clicked pystr
  | Print_click_error pystr
  | Print_loading pystr
  | Print_scanning
  | Print_found nat
  | Print_filtered nat "pystr list"
  | Print_button_index nat nat
  | Print_category pystr int
  | Print_description pystr
  | Print_rescanning
  | Do_click pystr

record world =
  reads :: nat
  clock :: nat
  trace :: "event list"

definition print_event :: "event \<Rightarrow> world \<Rightarrow> world" where
  "print_event e w = w\<lparr>trace := trace w @ [e]\<rparr>"

text \<open>\<open>time.sleep(n)\<close>.\<close>

definition sleep :: "nat \<Rightarrow> world \<Rightarrow> world" where
  "sleep n w = w\<lparr>clock := clock w + n\<rparr>"

text \<open>
  \<open>input_value()\<close> returns the current value of a field or raises. What an element
  handle answers depends on the page at that moment, so an element carries its answers
  as functions of the world: \<open>el_value\<close> for \<open>input_value()\<close>, \<open>el_click\<close> for
  \<open>click()\<close> (\<open>None\<close> when the click goes through, \<open>Some e\<close> when it raises an
  exception that prints as \<open>e\<close>). \<open>el_attrs\<close> is what \<open>get_attribute\<close> reads.
\<close>

datatype reading = Value pystr | Raises

record element =
  el_tag :: pystr
  el_attrs :: "(pystr \<times> pystr) list"
  el_visible :: bool
  el_enabled :: bool
  el_value :: "world \<Rightarrow> reading"
  el_click :: "world \<Rightarrow> pystr option"

definition input_value :: "element \<Rightarrow> world \<Rightarrow> reading \<times> world" where
  "input_value e w = (el_value e w, w\<lparr>reads := reads w + 1\<rparr>)"

definition get_attribute :: "element \<Rightarrow> pystr \<Rightarrow> pystr option" where
  "get_attribute e k = map_of (el_attrs e) k"

text \<open>
  \<open>str.strip()\<close> removes leading and trailing whitespace; \<open>isspace\<close> lists the code
  points Python counts as whitespace.
\<close>

definition isspace :: "nat \<Rightarrow> bool" where
  "isspace c \<longleftrightarrow>
     (0x09 \<le> c \<and> c \<le> 0x0D) \<or> (0x1C \<le> c \<and> c \<le> 0x20) \<or> c = 0x85 \<or> c = 0xA0 \<or>
     c = 0x1680 \<or> (0x2000 \<le> c \<and> c \<le> 0x200A) \<or> c = 0x2028 \<or> c = 0x2029 \<or>
     c = 0x202F \<or> c = 0x205F \<or> c = 0x3000"

definition strip :: "pystr \<Rightarrow> pystr" where
  "strip s = rev (dropWhile isspace (rev (dropWhile isspace s)))"

section \<open>The typing guard (\<open>wait_for_typing_completion\<close>)\<close>

text \<open>
  The \<open>while wait_cycles < max_wait\<close> loop. Each round sleeps a second and reads the
  field. A read that raises leaves the loop (\<open>break\<close>); the statements after the loop
  then print the time-out message and return \<open>True\<close>.
\<close>

function monitor ::
  "element \<Rightarrow> int \<Rightarrow> pystr \<Rightarrow> nat \<Rightarrow> int \<Rightarrow> world \<Rightarrow> bool \<times> world" where
  "monitor input_element max_wait last_value stable_count wait_cycles w =
    (if wait_cycles < max_wait then
       (case input_value input_element (sleep 1 w) of
          (Raises, w') \<Rightarrow>
            (True, print_event Print_max_wait (print_event Print_error_monitoring w'))
        | (Value current_value, w') \<Rightarrow>
            if current_value = last_value then
              if stable_count + 1 \<ge> 3 then (True, print_event Print_typing_complete w')
              else monitor input_element max_wait current_value (stable_count + 1)
                     (wait_cycles + 1) w'
            else monitor input_element max_wait current_value 0 (wait_cycles + 1)
                   (print_event (Print_typing_progress (length current_value)) w'))
     else (True, print_event Print_max_wait w))"
  by pat_completeness auto
termination
  by (relation "measure (\<lambda>(e, max_wait, l, s, wait_cycles, w). nat (max_wait - wait_cycles))")
     auto

declare monitor.simps [simp del]

text \<open>
  \<open>wait_for_typing_completion(input_element, max_wait)\<close>; the caller passes no
  \<open>max_wait\<close>, so it runs with the default 30.
\<close>

definition wait_for_typing_completion :: "element \<Rightarrow> int \<Rightarrow> world \<Rightarrow> bool \<times> world" where
  "wait_for_typing_completion input_element max_wait w =
    (let (r, w1) = input_value input_element (print_event Print_waiting w);
         initial_value = (case r of Value v \<Rightarrow> v | Raises \<Rightarrow> [])
     in if strip initial_value = [] then
          (case input_value input_element (sleep 5 (print_event Print_field_empty w1)) of
             (Raises, w2) \<Rightarrow> (True, w2)
           | (Value current_value, w2) \<Rightarrow>
               if strip current_value = [] then (True, print_event Print_no_typing w2)
               else monitor input_element max_wait initial_value 0 0 w2)
        else monitor input_element max_wait initial_value 0 0 w1)"

text \<open>
  A field whose successive reads return the given values, one per call of
  \<open>input_value()\<close>, and raise once the values are used up.
\<close>

definition successive :: "pystr list \<Rightarrow> world \<Rightarrow> reading" where
  "successive vs w = (if reads w < length vs then Value (vs ! reads w) else Raises)"

text \<open>
  A field whose value at second \<open>t\<close> of the clock is the \<open>t\<close>-th of the given values,
  and that cannot be read once they are used up.
\<close>

definition per_second :: "pystr list \<Rightarrow> world \<Rightarrow> reading" where
  "per_second vs w = (if clock w < length vs then Value (vs ! clock w) else Raises)"

text \<open>The world before anything happened, and a visible, enabled input with given reads.\<close>

definition world0 :: world where
  "world0 = \<lparr>reads = 0, clock = 0, trace = []\<rparr>"

definition field :: "(world \<Rightarrow> reading) \<Rightarrow> element" where
  "field f = \<lparr>el_tag = asc ''input'', el_attrs = [], el_visible = True, el_enabled = True,
     el_value = f, el_click = (\<lambda>w. None)\<rparr>"


section \<open>Button records and the click (\<open>smart_button_click\<close>)\<close>

text \<open>
  The dictionary \<open>find_associated_input\<close> returns, and the one \<open>analyze_button\<close>
  builds for every button found (the Button Record of the specification). Field names
  follow the dictionary keys; a key that is an Isabelle keyword or is used twice carries a
  prefix.
\<close>

record input_info =
  inp_element :: element
  inp_type :: pystr
  inp_placeholder :: pystr
  inp_value :: pystr

record button_info =
  element :: element
  button_text :: pystr
  category :: pystr
  priority :: int
  description :: pystr
  combined_text :: pystr
  associated_input :: "input_info option"
  tag_name :: pystr
  type_attr :: pystr
  clickable :: bool

text \<open>
  \<open>find_associated_input\<close>. \<open>container\<close> stands for the button's parent as the two
  queries see it: \<open>None\<close> when \<open>query_selector('xpath=..')\<close> finds no parent, else the
  elements below the parent in document order, of which
  \<open>query_selector_all('input, textarea')\<close> keeps those two tags. The loop returns at the
  first visible, enabled element whose type passes; when reading its value raises, the
  \<open>except\<close> clause returns \<open>None\<close>.
\<close>

definition query_inputs :: "element list \<Rightarrow> element list" where
  "query_inputs below = filter (\<lambda>e. el_tag e = asc ''input'' \<or> el_tag e = asc ''textarea'') below"

definition type_or_text :: "element \<Rightarrow> pystr" where
  "type_or_text inp =
     (case get_attribute inp (asc ''type'') of
        None \<Rightarrow> asc ''text''
      | Some v \<Rightarrow> if v = [] then asc ''text'' else v)"

definition text_like :: "element \<Rightarrow> bool" where
  "text_like inp \<longleftrightarrow>
     el_visible inp \<and> el_enabled inp \<and>
     type_or_text inp \<in> set [asc ''text'', asc ''search'', asc ''email'', asc ''url'']"

definition find_associated_input ::
  "element list option \<Rightarrow> world \<Rightarrow> input_info option \<times> world" where
  "find_associated_input container w =
    (case container of
       None \<Rightarrow> (None, w)
     | Some below \<Rightarrow>
        (case find text_like (query_inputs below) of
           None \<Rightarrow> (None, w)
         | Some inp \<Rightarrow>
            (case input_value inp w of
               (Raises, w') \<Rightarrow> (None, w')
             | (Value v, w') \<Rightarrow>
                 (Some \<lparr>inp_element = inp, inp_type = type_or_text inp,
                    inp_placeholder =
                      (case get_attribute inp (asc ''placeholder'') of None \<Rightarrow> [] | Some p \<Rightarrow> p),
                    inp_value = v\<rparr>, w'))))"

text \<open>
  A small container: a hidden input followed by a visible, empty textarea that has a
  placeholder and no \<open>type\<close> attribute.
\<close>

definition hidden_input :: element where
  "hidden_input =
    \<lparr>el_tag = asc ''input'', el_attrs = [(asc ''type'', asc ''hidden'')], el_visible = False,
     el_enabled = True, el_value = (\<lambda>w. Value (asc ''token'')), el_click = (\<lambda>w. None)\<rparr>"

definition message_box :: element where
  "message_box =
    \<lparr>el_tag = asc ''textarea'', el_attrs = [(asc ''placeholder'', asc ''msg'')],
     el_visible = True, el_enabled = True, el_value = (\<lambda>w. Value []),
     el_click = (\<lambda>w. None)\<rparr>"

text \<open>The dictionary \<open>smart_button_click\<close> returns.\<close>

record click_result =
  success :: bool
  message :: pystr
  result_category :: pystr
  result_button_text :: "pystr option"

text \<open>
  The second half of \<open>smart_button_click\<close>: click, wait for the page, report. A click
  that raises is caught by the function's \<open>except\<close> clause. The wait for the network to
  idle swallows its own time-out and changes nothing the model tracks.
\<close>

definition click_button :: "button_info \<Rightarrow> world \<Rightarrow> click_result \<times> world" where
  "click_button button_info w =
    (let w1 = print_event (Print_clicking (category button_info)) w in
     case el_click (element button_info) w1 of
       Some e \<Rightarrow>
         (\<lparr>success = False, message = asc ''Error clicking button: '' @ e,
           result_category = category button_info, result_button_text = None\<rparr>,
          print_event (Print_click_error e) w1)
     | None \<Rightarrow>
         (\<lparr>success = True,
           message = asc ''Successfully clicked '' @ category button_info @ asc '' button'',
           result_category = category button_info,
           result_button_text = Some (button_text button_info)\<rparr>,
          print_event (Print_clicked (category button_info))
            (sleep 2 (print_event (Do_click (button_text button_info)) w1))))"

text \<open>
  \<open>smart_button_click\<close>. \<open>typing\<close> answers \<open>is_typing_in_progress()\<close>, a comparison
  of the wall clock with the time of the last fill; the model takes the answer as given.
\<close>

definition smart_button_click ::
  "(world \<Rightarrow> bool) \<Rightarrow> button_info \<Rightarrow> world \<Rightarrow> click_result \<times> world" where
  "smart_button_click typing button_info w =
    (let w1 = print_event (Print_processing (category button_info) (description button_info)) w in
     case (if category button_info \<in> set [asc ''submit'', asc ''search'', asc ''navigation'']
           then associated_input button_info else None) of
       None \<Rightarrow> click_button button_info w1
     | Some inp \<Rightarrow>
        (let w2 = print_event (Print_found_input (inp_value inp)) w1 in
         if strip (inp_value inp) = [] \<or> typing w2 then
           (case wait_for_typing_completion (inp_element inp) 30 w2 of
              (ok, w3) \<Rightarrow>
                if \<not> ok then
                  (\<lparr>success = False, message = asc ''Timeout waiting for typing completion'',
                    result_category = category button_info, result_button_text = None\<rparr>, w3)
                else click_button button_info w3)
         else click_button button_info w2))"

section \<open>Processing a page (\<open>process_all_buttons\<close>)\<close>

text \<open>
  \<open>list.sort(key=..., reverse=True)\<close>: Python reverses the list, sorts it stably in
  ascending order of the key and reverses the result, so that elements with equal keys
  keep their order.
\<close>

definition sort_reverse :: "('a \<Rightarrow> int) \<Rightarrow> 'a list \<Rightarrow> 'a list" where
  "sort_reverse key xs = rev (sort_key key (rev xs))"

text \<open>
  The \<open>for i, button_info in enumerate(buttons, 1)\<close> loop; \<open>n\<close> is \<open>len(buttons)\<close>. It
  returns the results, the count of successful clicks and the world.
\<close>

fun process_loop ::
  "(world \<Rightarrow> bool) \<Rightarrow> nat \<Rightarrow> nat \<Rightarrow> button_info list \<Rightarrow> click_result list \<Rightarrow> nat \<Rightarrow> world \<Rightarrow>
   click_result list \<times> nat \<times> world" where
  "process_loop typing n i [] results processed_count w = (results, processed_count, w)"
| "process_loop typing n i (button_info # rest) results processed_count w =
    (let w1 = print_event (Print_description (description button_info))
                (print_event (Print_category (category button_info) (priority button_info))
                  (print_event (Print_button_index i n) w))
     in case smart_button_click typing button_info w1 of
       (result, w2) \<Rightarrow>
         (let results' = results @ [result];
              processed_count' = (if success result then processed_count + 1 else processed_count);
              w3 = (if success result then sleep 1 w2 else w2)
          in if category button_info \<in> set [asc ''navigation'', asc ''submit'']
             then (results', processed_count', sleep 2 (print_event Print_rescanning w3))
             else process_loop typing n (i + 1) rest results' processed_count' w3))"

text \<open>
  What \<open>process_all_buttons\<close> returns: a failure message, or the message, the button
  count, the count of successful clicks and the per-button results.
\<close>

datatype process_result =
    Failure pystr
  | Processed pystr nat nat "click_result list"

text \<open>\<open>str(n)\<close> for a count, as the f-string of the final message writes it.\<close>

fun str_nat :: "nat \<Rightarrow> pystr" where
  "str_nat n = (if n < 10 then [48 + n] else str_nat (n div 10) @ [48 + n mod 10])"

declare str_nat.simps [simp del]

text \<open>
  \<open>process_all_buttons\<close>. \<open>loaded\<close> is what \<open>navigate_to_url\<close> returned and \<open>found\<close>
  what \<open>find_all_buttons\<close> returned; the model takes both as given.
  \<open>categories_filter\<close> is \<open>None\<close> or a list; an empty list is falsy and filters nothing.
\<close>

definition filter_buttons :: "pystr list option \<Rightarrow> button_info list \<Rightarrow> button_info list" where
  "filter_buttons categories_filter buttons =
    (case categories_filter of
       None \<Rightarrow> buttons
     | Some cs \<Rightarrow> if cs = [] then buttons else filter (\<lambda>b. category b \<in> set cs) buttons)"

definition process_all_buttons ::
  "(world \<Rightarrow> bool) \<Rightarrow> pystr \<Rightarrow> bool \<Rightarrow> button_info list \<Rightarrow> pystr list option \<Rightarrow> world \<Rightarrow>
   process_result \<times> world" where
  "process_all_buttons typing url loaded found categories_filter w =
    (let w0 = print_event (Print_loading url) w in
     if \<not> loaded then (Failure (asc ''Failed to load page''), w0)
     else if found = [] then
       (Failure (asc ''No buttons found on this page''), print_event Print_scanning w0)
     else
       (let w1 = print_event (Print_found (length found)) (print_event Print_scanning w0);
            filtered = filter_buttons categories_filter found;
            w2 = (case categories_filter of
                    None \<Rightarrow> w1
                  | Some cs \<Rightarrow> if cs = [] then w1
                      else print_event (Print_filtered (length filtered) cs) w1);
            buttons = sort_reverse priority filtered
        in case process_loop typing (length buttons) 1 buttons [] 0 w2 of
          (results, processed_count, w3) \<Rightarrow>
            (Processed
               (asc ''Processed '' @ str_nat processed_count @ asc '' buttons successfully'')
               (length buttons) processed_count results, w3)))"

text \<open>
  The record \<open>analyze_button\<close> builds once it has read the element: category, priority
  and description come from \<open>categorize_button\<close>, called with the combined text, the
  type attribute and the tag name.
\<close>

definition button_record ::
  "element \<Rightarrow> pystr \<Rightarrow> pystr \<Rightarrow> pystr \<Rightarrow> pystr \<Rightarrow> input_info option \<Rightarrow> button_info" where
  "button_record e txt combined ty tg inp =
    (case categorize_button combined ty tg of
       (c, p, d) \<Rightarrow>
         \<lparr>element = e, button_text = txt, category = c, priority = p, description = d,
          combined_text = combined, associated_input = inp, tag_name = tg, type_attr = ty,
          clickable = True\<rparr>)"

text \<open>A button that shows the given text and has no other attribute.\<close>

definition plain_button :: "pystr \<Rightarrow> button_info" where
  "plain_button txt =
     button_record (field (\<lambda>w. Raises)) txt (txt @ asc ''     '') [] (asc ''button'') None"

text \<open>
  Two fields that never settle: one whose value differs at every read, and one that can
  be read once and raises from then on. \<open>guarded_submit\<close> is the record of a submit
  button whose associated input is the given field, seen empty when the page was scanned.
\<close>

definition restless :: element where
  "restless = field (\<lambda>w. Value [120 + reads w])"

definition read_once :: element where
  "read_once = field (\<lambda>w. if reads w = 0 then Value [120] else Raises)"

definition guarded_submit :: "element \<Rightarrow> button_info" where
  "guarded_submit e =
     button_record (field (\<lambda>w. Raises)) (asc ''go'') (asc ''go     '') (asc ''submit'')
       (asc ''button'')
       (Some \<lparr>inp_element = e, inp_type = asc ''text'', inp_placeholder = [], inp_value = []\<rparr>)"

text \<open>A record is analyzed when its category and priority are those of its texts.\<close>

definition analyzed :: "button_info \<Rightarrow> bool" where
  "analyzed b \<longleftrightarrow>
     (category b, priority b) =
       cat_prio (categorize_button (combined_text b) (type_attr b) (tag_name b))"

text \<open>
  The order of the categories as the specification gives it, highest priority first.
\<close>

definition category_order :: "pystr list" where
  "category_order =
    [asc ''cookie_consent'', asc ''terms_agreement'', asc ''submit'', asc ''navigation'',
     asc ''search'', asc ''choice'', asc ''general'', asc ''cancel'']"

text \<open>The place of a category in that order (the length of the list when it is not in it).\<close>

fun rank :: "pystr list \<Rightarrow> pystr \<Rightarrow> nat" where
  "rank [] c = 0"
| "rank (x # xs) c = (if x = c then 0 else Suc (rank xs c))"

text \<open>
  The entries \<open>scan_buttons\<close> returns: it copies six fields of every record and sorts
  the copies the same way.
\<close>

record scan_entry =
  scan_category :: pystr
  scan_priority :: int
  scan_description :: pystr
  scan_text :: pystr
  scan_tag_name :: pystr
  has_associated_input :: bool

definition scan_entry_of :: "button_info \<Rightarrow> scan_entry" where
  "scan_entry_of button =
     \<lparr>scan_category = category button, scan_priority = priority button,
      scan_description = description button, scan_text = button_text button,
      scan_tag_name = tag_name button,
      has_associated_input = (associated_input button \<noteq> None)\<rparr>"

definition scan_buttons :: "button_info list \<Rightarrow> scan_entry list" where
  "scan_buttons buttons = sort_reverse scan_priority (map scan_entry_of buttons)"


section \<open>The page analyzer (\<open>enhanced_web_analyzer.py\<close>)\<close>

text \<open>
  The analyzer works on a parsed document. A tag has a name, attributes and a parent
  (\<open>None\<close> above the document). The parser keeps \<open>class\<close> as a list of strings and
  every other attribute as one string, so the model keeps the class list apart from the
  other attributes. \<open>get_text_strip\<close> is what \<open>get_text(strip=True)\<close> returns for the
  tag, taken as given.
\<close>

datatype tag =
  Tag (name: pystr) (attrs: "(pystr \<times> pystr) list") (classes: "pystr list option")
      (get_text_strip: pystr) (parent: "tag option")

definition attr :: "tag \<Rightarrow> pystr \<Rightarrow> pystr option" where
  "attr t k = map_of (attrs t) k"

text \<open>\<open>sep.join(xs)\<close>.\<close>

fun join :: "pystr \<Rightarrow> pystr list \<Rightarrow> pystr" where
  "join sep [] = []"
| "join sep [x] = x"
| "join sep (x # y # ys) = x @ sep @ join sep (y # ys)"

subsection \<open>\<open>generate_advanced_selector\<close>\<close>

text \<open>
  The descriptor of a tag without an id: \<open>tag.firstclass\<close> when the tag has a non-empty
  class, the bare tag name otherwise.
\<close>

definition class_descriptor :: "tag \<Rightarrow> pystr" where
  "class_descriptor current =
    (case classes current of
       None \<Rightarrow> name current
     | Some cs \<Rightarrow>
        (case filter (\<lambda>c. c \<noteq> []) cs of
           [] \<Rightarrow> name current
         | c # _ \<Rightarrow> name current @ asc ''.'' @ c))"

text \<open>
  The \<open>while current and current.name\<close> loop that collects \<open>path_parts\<close>. A tag with an
  id is appended as \<open>tag#id\<close> and ends the loop. Any other tag is appended, the loop
  moves to the parent, and then ends when the list is longer than 5.
\<close>

fun path_loop :: "tag option \<Rightarrow> pystr list \<Rightarrow> pystr list" where
  "path_loop None path_parts = path_parts"
| "path_loop (Some (Tag nm ats cls txt par)) path_parts =
    (if nm = [] then path_parts
     else case map_of ats (asc ''id'') of
       Some i \<Rightarrow> path_parts @ [nm @ asc ''#'' @ i]
     | None \<Rightarrow>
        (let path_parts' = path_parts @ [class_descriptor (Tag nm ats cls txt par)]
         in if length path_parts' > 5 then path_parts'
            else path_loop par path_parts'))"

text \<open>The dictionary of selectors; a key that may be missing is an option.\<close>

record selectors =
  id_selector :: "pystr option"
  selector_priority :: "pystr option"
  class_selector :: "pystr option"
  selector_classes :: "pystr list option"
  name_selector :: "pystr option"
  type_selector :: "pystr option"
  tag_selector :: pystr
  path_parts_of :: "pystr list"
  hierarchical_path :: pystr

text \<open>
  \<open>generate_advanced_selector\<close>. \<open>path_parts_of\<close> is the local list \<open>path_parts\<close>, kept
  beside the string \<open>hierarchical_path\<close> that joins it, outermost tag first.
\<close>

definition generate_advanced_selector :: "tag \<Rightarrow> selectors" where
  "generate_advanced_selector e =
    (let nonempty = (case classes e of None \<Rightarrow> [] | Some cs \<Rightarrow> filter (\<lambda>c. c \<noteq> []) cs);
         path_parts = path_loop (Some e) []
     in \<lparr>id_selector = map_option (\<lambda>i. asc ''#'' @ i) (attr e (asc ''id'')),
         selector_priority = map_option (\<lambda>i. asc ''high'') (attr e (asc ''id'')),
         class_selector =
           (if nonempty = [] then None
            else Some (name e @ asc ''.'' @ join (asc ''.'') nonempty)),
         selector_classes = (if nonempty = [] then None else Some nonempty),
         name_selector =
           map_option (\<lambda>n. name e @ asc ''[name='' @ [39] @ n @ [39] @ asc '']'')
             (attr e (asc ''name'')),
         type_selector =
           map_option (\<lambda>t. name e @ asc ''[type='' @ [39] @ t @ [39] @ asc '']'')
             (attr e (asc ''type'')),
         tag_selector = name e,
         path_parts_of = path_parts,
         hierarchical_path = join (asc '' > '') (rev path_parts)\<rparr>)"

text \<open>A tag and its ancestors, innermost first.\<close>

fun chain :: "tag option \<Rightarrow> tag list" where
  "chain None = []"
| "chain (Some (Tag nm ats cls txt par)) = Tag nm ats cls txt par # chain par"

text \<open>The descriptor of a tag in a path: \<open>tag#id\<close>, \<open>tag.firstclass\<close> or the bare tag.\<close>

definition descriptor :: "tag \<Rightarrow> pystr" where
  "descriptor t =
    (case attr t (asc ''id'') of
       Some i \<Rightarrow> name t @ asc ''#'' @ i
     | None \<Rightarrow> class_descriptor t)"

text \<open>A run of \<open>k\<close> nested tags of the given name without id or class, inside \<open>outer\<close>.\<close>

fun nest :: "nat \<Rightarrow> pystr \<Rightarrow> tag option \<Rightarrow> tag option" where
  "nest 0 nm outer = outer"
| "nest (Suc k) nm outer = Some (Tag nm [] None [] (nest k nm outer))"

text \<open>
  Two documents: six nested \<open>div\<close> tags inside a \<open>body\<close> that has an id, seen from the
  innermost \<open>div\<close>; and a \<open>p\<close> of class \<open>k\<close> inside a \<open>p\<close> inside a \<open>body\<close> with
  an id inside \<open>html\<close>, seen from the inner \<open>p\<close>.
\<close>

definition body_main :: tag where
  "body_main = Tag (asc ''body'') [(asc ''id'', asc ''main'')] None []
     (Some (Tag (asc ''html'') [] None [] None))"

definition six_divs :: tag where
  "six_divs = Tag (asc ''div'') [] None [] (nest 5 (asc ''div'') (Some body_main))"

definition outer_p :: tag where
  "outer_p = Tag (asc ''p'') [] None [] (Some body_main)"

definition inner_p :: tag where
  "inner_p = Tag (asc ''p'') [] (Some [[], asc ''k'']) [] (Some outer_p)"

subsection \<open>\<open>extract_semantic_info\<close>\<close>

text \<open>
  Three tables of Python's Unicode database enter the text tests: \<open>str.lower\<close>, the
  word characters \<open>\w\<close> (which decide the word boundary \<open>\b\<close>) and the decimal
  digits \<open>\d\<close>. The analyzer is modelled for any such tables.
\<close>

record unicode =
  lower :: "pystr \<Rightarrow> pystr"
  is_word :: "nat \<Rightarrow> bool"
  is_digit :: "nat \<Rightarrow> bool"

text \<open>
  \<open>\b\<close> between two neighbouring characters (\<open>None\<close> at either end of the string):
  exactly one of the two is a word character.
\<close>

definition word_char :: "unicode \<Rightarrow> nat option \<Rightarrow> bool" where
  "word_char U c = (case c of None \<Rightarrow> False | Some x \<Rightarrow> is_word U x)"

definition boundary :: "unicode \<Rightarrow> nat option \<Rightarrow> nat option \<Rightarrow> bool" where
  "boundary U prev nxt \<longleftrightarrow> word_char U prev \<noteq> word_char U nxt"

definition first_char :: "pystr \<Rightarrow> nat option" where
  "first_char s = (case s of [] \<Rightarrow> None | c # _ \<Rightarrow> Some c)"

text \<open>
  \<open>\b alternative \b\<close> matches at the start of \<open>s\<close>, where \<open>prev\<close> is the character
  in front of \<open>s\<close>: the alternative is a prefix of \<open>s\<close>, with a boundary in front of it
  and a boundary behind it.
\<close>

definition word_here :: "unicode \<Rightarrow> nat option \<Rightarrow> pystr \<Rightarrow> pystr \<Rightarrow> bool" where
  "word_here U prev s a \<longleftrightarrow>
     startswith s a \<and>
     boundary U prev (first_char s) \<and>
     boundary U (if a = [] then prev else Some (last a)) (first_char (drop (length a) s))"

text \<open>
  \<open>re.search(r'\b(a1|a2|...)\b', s)\<close> finds a match: some alternative matches at some
  position of the string, the end included.
\<close>

fun search_from :: "unicode \<Rightarrow> pystr list \<Rightarrow> nat option \<Rightarrow> pystr \<Rightarrow> bool" where
  "search_from U alts prev [] = list_ex (word_here U prev []) alts"
| "search_from U alts prev (c # cs) =
     (list_ex (word_here U prev (c # cs)) alts \<or> search_from U alts (Some c) cs)"

definition search_words :: "unicode \<Rightarrow> pystr list \<Rightarrow> pystr \<Rightarrow> bool" where
  "search_words U alts s = search_from U alts None s"

text \<open>
  \<open>re.search(r'^\d+$', s)\<close>: one or more digits and nothing else, where \<open>$\<close> also
  matches before a final newline.
\<close>

definition search_digits :: "unicode \<Rightarrow> pystr \<Rightarrow> bool" where
  "search_digits U s \<longleftrightarrow>
     (s \<noteq> [] \<and> list_all (is_digit U) s) \<or>
     (s \<noteq> [] \<and> last s = 10 \<and> butlast s \<noteq> [] \<and> list_all (is_digit U) (butlast s))"

text \<open>
  \<open>re.search(r'@.*\.(com|org|net)', s)\<close>: an \<open>@\<close>, then on the same line a dot
  followed by one of the three endings (\<open>.\<close> matches any character but a newline).
\<close>

fun dot_ending :: "pystr \<Rightarrow> bool" where
  "dot_ending [] = False"
| "dot_ending (c # cs) =
    ((c = 46 \<and> (startswith cs (asc ''com'') \<or> startswith cs (asc ''org'') \<or>
                 startswith cs (asc ''net''))) \<or>
     (c \<noteq> 10 \<and> dot_ending cs))"

fun search_email :: "pystr \<Rightarrow> bool" where
  "search_email [] = False"
| "search_email (c # cs) = ((c = 64 \<and> dot_ending cs) \<or> search_email cs)"

text \<open>The alternatives of the four keyword patterns.\<close>

definition login_words :: "pystr list" where
  "login_words =
    [[0x62A, 0x633, 0x62C, 0x64A, 0x644, 0x20, 0x62F, 0x62E, 0x648, 0x644],
     asc ''login'', asc ''sign in'']"

definition search_word_list :: "pystr list" where
  "search_word_list = [[0x628, 0x62D, 0x62B], asc ''search'']"

definition submit_words :: "pystr list" where
  "submit_words = [[0x625, 0x631, 0x633, 0x627, 0x644], asc ''submit'', asc ''send'']"

definition cancel_words :: "pystr list" where
  "cancel_words = [[0x625, 0x644, 0x63A, 0x627, 0x621], asc ''cancel'', asc ''close'']"

text \<open>The dictionary \<open>extract_semantic_info\<close> returns; a key that may be missing is an option.\<close>

record semantic =
  text_content :: "pystr option"
  text_length :: "nat option"
  text_type :: "pystr option"
  sem_placeholder :: "pystr option"
  sem_title :: "pystr option"
  alt_text :: "pystr option"
  aria_label :: "pystr option"
  sem_role :: "pystr option"

text \<open>The \<open>if\<close>/\<open>elif\<close> chain that classifies a non-empty text.\<close>

definition classify_text :: "unicode \<Rightarrow> pystr \<Rightarrow> pystr option" where
  "classify_text U txt =
    (if search_words U login_words (lower U txt) then Some (asc ''login'')
     else if search_words U search_word_list (lower U txt) then Some (asc ''search'')
     else if search_words U submit_words (lower U txt) then Some (asc ''submit'')
     else if search_words U cancel_words (lower U txt) then Some (asc ''cancel'')
     else if search_digits U txt then Some (asc ''numeric'')
     else if search_email txt then Some (asc ''email'')
     else if startswith txt (asc ''http'') then Some (asc ''url'')
     else None)"

definition extract_semantic_info :: "unicode \<Rightarrow> tag \<Rightarrow> semantic" where
  "extract_semantic_info U e =
    (let txt = get_text_strip e in
     \<lparr>text_content = (if txt \<noteq> [] then Some txt else None),
      text_length = (if txt \<noteq> [] then Some (length txt) else None),
      text_type = (if txt \<noteq> [] then classify_text U txt else None),
      sem_placeholder = attr e (asc ''placeholder''),
      sem_title = attr e (asc ''title''),
      alt_text = attr e (asc ''alt''),
      aria_label = attr e (asc ''aria-label''),
      sem_role = attr e (asc ''role'')\<rparr>)"

subsection \<open>The text tests as the specification orders them\<close>

text \<open>
  The specification lists seven tests in a fixed order, the first match deciding the
  type. \<open>text_tests\<close> is that list for a text \<open>lowered\<close> given to the four keyword tests and
  a text \<open>plain\<close> given to the three others, and \<open>first_test\<close> is the scan. The
  specification has every test read the lower-cased text: \<open>spec_text_type\<close>.
\<close>

definition text_tests :: "unicode \<Rightarrow> pystr \<Rightarrow> pystr \<Rightarrow> (bool \<times> pystr) list" where
  "text_tests U lowered plain =
    [(search_words U login_words lowered, asc ''login''),
     (search_words U search_word_list lowered, asc ''search''),
     (search_words U submit_words lowered, asc ''submit''),
     (search_words U cancel_words lowered, asc ''cancel''),
     (search_digits U plain, asc ''numeric''),
     (search_email plain, asc ''email''),
     (startswith plain (asc ''http''), asc ''url'')]"

definition first_test :: "(bool \<times> pystr) list \<Rightarrow> pystr option" where
  "first_test tests = map_option snd (find fst tests)"

definition spec_text_type :: "unicode \<Rightarrow> pystr \<Rightarrow> pystr option" where
  "spec_text_type U txt = first_test (text_tests U (lower U txt) (lower U txt))"

text \<open>
  Tables for the ASCII range: \<open>lower\<close> maps \<open>A\<close>..\<open>Z\<close> to \<open>a\<close>..\<open>z\<close>, word
  characters are letters, digits and the underscore, digits are \<open>0\<close>..\<open>9\<close>. On ASCII
  text they agree with Python's.
\<close>

definition ascii_lower :: "pystr \<Rightarrow> pystr" where
  "ascii_lower s = map (\<lambda>c. if 65 \<le> c \<and> c \<le> 90 then c + 32 else c) s"

definition ascii_tables :: unicode where
  "ascii_tables =
    \<lparr>lower = ascii_lower,
     is_word = (\<lambda>c. (48 \<le> c \<and> c \<le> 57) \<or> (65 \<le> c \<and> c \<le> 90) \<or> c = 95 \<or>
                     (97 \<le> c \<and> c \<le> 122)),
     is_digit = (\<lambda>c. 48 \<le> c \<and> c \<le> 57)\<rparr>"


section \<open>Facts about strings\<close>

lemma startswith_iff: "startswith s p \<longleftrightarrow> (\<exists>post. s = p @ post)"
  by (induction s p rule: startswith.induct) auto

lemma py_in_iff: "py_in p s \<longleftrightarrow> (\<exists>pre post. s = pre @ p @ post)"
proof (induction s)
  case Nil
  then show ?case by auto
next
  case (Cons d s)
  show ?case
  proof
    assume "py_in p (d # s)"
    then consider "startswith (d # s) p" | "py_in p s" by auto
    then show "\<exists>pre post. d # s = pre @ p @ post"
    proof cases
      case 1
      then obtain post where "d # s = p @ post" by (auto simp: startswith_iff)
      then have "d # s = [] @ p @ post" by simp
      then show ?thesis by blast
    next
      case 2
      then obtain pre post where "s = pre @ p @ post" using Cons.IH by auto
      then have "d # s = (d # pre) @ p @ post" by simp
      then show ?thesis by blast
    qed
  next
    assume "\<exists>pre post. d # s = pre @ p @ post"
    then obtain pre post where e: "d # s = pre @ p @ post" by auto
    show "py_in p (d # s)"
    proof (cases pre)
      case Nil
      with e have "startswith (d # s) p" by (auto simp: startswith_iff)
      then show ?thesis by simp
    next
      case (Cons a pre')
      with e have "s = pre' @ p @ post" by simp
      then have "py_in p s" using Cons.IH by blast
      then show ?thesis by simp
    qed
  qed
qed

lemma py_in_prefix: "py_in (p @ q) s \<Longrightarrow> py_in p s"
proof -
  assume "py_in (p @ q) s"
  then obtain pre post where "s = pre @ (p @ q) @ post" by (auto simp: py_in_iff)
  then have "s = pre @ p @ (q @ post)" by simp
  then show ?thesis unfolding py_in_iff by blast
qed

section \<open>Facts about the categorizer\<close>

lemma first_pattern_None: "first_pattern ps t = None \<longleftrightarrow> \<not> matches ps t"
  by (auto simp: first_pattern_def matches_def find_None_iff list_ex_iff)

lemma first_pattern_Some: "first_pattern ps t = Some p \<Longrightarrow> matches ps t"
  using first_pattern_None [of ps t] by auto

lemma cat_prio_case:
  "cat_prio (case first_pattern ps t of Some p \<Rightarrow> (c, n, d p) | None \<Rightarrow> r) =
   (if matches ps t then (c, n) else cat_prio r)"
  using first_pattern_None [of ps t]
  by (cases "first_pattern ps t") (auto simp: cat_prio_def category_of_def priority_of_def)

lemma cat_prio_if: "cat_prio (if b then (c, n, d) else r) = (if b then (c, n) else cat_prio r)"
  by (simp add: cat_prio_def category_of_def priority_of_def)

lemma cat_prio_triple: "cat_prio (c, n, d) = (c, n)"
  by (simp add: cat_prio_def category_of_def priority_of_def)

text \<open>The categorizer, read as the chain of tests it is.\<close>

lemma cat_prio_categorize:
  "cat_prio (categorize_button t ty tg) =
    (if matches cookie_patterns t then (asc ''cookie_consent'', 10)
     else if matches terms_patterns t then (asc ''terms_agreement'', 9)
     else if submit_trigger t ty tg then (asc ''submit'', 8)
     else if matches navigation_patterns t then (asc ''navigation'', 7)
     else if matches search_patterns t then (asc ''search'', 6)
     else if matches choice_patterns t then (asc ''choice'', 5)
     else if matches cancel_patterns t then (asc ''cancel'', 2)
     else (asc ''general'', 3))"
  unfolding categorize_button_def
  by (simp only: cat_prio_case cat_prio_if cat_prio_triple submit_trigger_def)

lemma table_lookup_if:
  "table_lookup t ty tg =
    (if matches cookie_patterns t then (asc ''cookie_consent'', 10)
     else if matches terms_patterns t then (asc ''terms_agreement'', 9)
     else if submit_trigger t ty tg then (asc ''submit'', 8)
     else if matches navigation_patterns t then (asc ''navigation'', 7)
     else if matches search_patterns t then (asc ''search'', 6)
     else if matches choice_patterns t then (asc ''choice'', 5)
     else if matches cancel_patterns t then (asc ''cancel'', 2)
     else (asc ''general'', 3))"
  unfolding table_lookup_def category_table_def
  by (simp only: find.simps fst_conv snd_conv option.case
      if_distrib [of "\<lambda>x. case x of None \<Rightarrow> _ | Some r \<Rightarrow> snd r"])


lemma cat_prio_in_pairs: "cat_prio (categorize_button t ty tg) \<in> set result_pairs"
  by (simp add: cat_prio_categorize result_pairs_def)

lemma result_pairs_distinct: "distinct (map fst result_pairs)"
  by (simp add: result_pairs_def asc_def)

lemma result_pairs_functional:
  "(c, p) \<in> set result_pairs \<Longrightarrow> (c, q) \<in> set result_pairs \<Longrightarrow> p = q"
  using result_pairs_distinct by (rule eq_key_imp_eq_value)

lemma result_pairs_bounds: "(c, p) \<in> set result_pairs \<Longrightarrow> 2 \<le> p \<and> p \<le> 10"
  by (auto simp: result_pairs_def)

lemma no_in_not_now: "py_in (asc ''not now'') t \<Longrightarrow> py_in (asc ''no'') t"
proof -
  have "asc ''not now'' = asc ''no'' @ asc ''t now''" by (simp add: asc_def)
  then show "py_in (asc ''not now'') t \<Longrightarrow> py_in (asc ''no'') t"
    using py_in_prefix by metis
qed

lemma matches_member: "p \<in> set ps \<Longrightarrow> py_in p t \<Longrightarrow> matches ps t"
  by (auto simp: matches_def list_ex_iff)

lemma no_is_choice: "asc ''no'' \<in> set choice_patterns"
  by (simp add: choice_patterns_def)

lemma not_now_is_cancel: "asc ''not now'' \<in> set cancel_patterns"
  by (simp add: cancel_patterns_def)

lemmas pattern_defs = cookie_patterns_def terms_patterns_def navigation_patterns_def
  search_patterns_def choice_patterns_def cancel_patterns_def

section \<open>The categorizer: claims\<close>

text \<open>
  Claim C1. For every combined text, type attribute and tag name, the category and the
  priority that \<open>categorize_button\<close> returns are those of the first row of the ordered table
  cookie_consent, terms_agreement, submit, navigation, search, choice, cancel whose
  trigger matches (and general, 3 when none does). In particular a text that contains
  both a cookie-consent keyword and a cancel keyword is categorized cookie_consent with
  priority 10.
\<close>

theorem categorize_button_first_match:
  "(category_of (categorize_button t ty tg), priority_of (categorize_button t ty tg)) =
     table_lookup t ty tg \<and>
   (matches cookie_patterns t \<and> matches cancel_patterns t \<longrightarrow>
     category_of (categorize_button t ty tg) = asc ''cookie_consent'' \<and>
     priority_of (categorize_button t ty tg) = 10)"
proof -
  have "cat_prio (categorize_button t ty tg) = table_lookup t ty tg"
    by (simp only: cat_prio_categorize table_lookup_if)
  then have a: "(category_of (categorize_button t ty tg),
      priority_of (categorize_button t ty tg)) = table_lookup t ty tg"
    by (simp only: cat_prio_def)
  have "cat_prio (categorize_button t ty tg) = (asc ''cookie_consent'', 10)"
    if "matches cookie_patterns t"
    using that by (simp add: cat_prio_categorize)
  then have b: "category_of (categorize_button t ty tg) = asc ''cookie_consent'' \<and>
      priority_of (categorize_button t ty tg) = 10" if "matches cookie_patterns t"
    using that by (simp add: cat_prio_def)
  show ?thesis using a b by blast
qed

theorem categorize_button_first_match_witness:
  "matches cookie_patterns (asc ''accept cookies or close'') \<and>
   matches cancel_patterns (asc ''accept cookies or close'') \<and>
   category_of (categorize_button (asc ''accept cookies or close'') [] (asc ''div'')) =
     asc ''cookie_consent'' \<and>
   priority_of (categorize_button (asc ''accept cookies or close'') [] (asc ''div'')) = 10 \<and>
   table_lookup (asc ''accept cookies or close'') [] (asc ''div'') =
     (asc ''cookie_consent'', 10)"
proof -
  have a: "matches cookie_patterns (asc ''accept cookies or close'')"
    by (simp add: matches_def cookie_patterns_def asc_def)
  have b: "matches cancel_patterns (asc ''accept cookies or close'')"
    by (simp add: matches_def cancel_patterns_def asc_def)
  note t = categorize_button_first_match [of "asc ''accept cookies or close''" "[]" "asc ''div''"]
  from t a b have c: "category_of (categorize_button (asc ''accept cookies or close'') []
      (asc ''div'')) = asc ''cookie_consent'' \<and>
    priority_of (categorize_button (asc ''accept cookies or close'') [] (asc ''div'')) = 10"
    by blast
  from t have "table_lookup (asc ''accept cookies or close'') [] (asc ''div'') =
      (category_of (categorize_button (asc ''accept cookies or close'') [] (asc ''div'')),
       priority_of (categorize_button (asc ''accept cookies or close'') [] (asc ''div'')))"
    by simp
  with c have d: "table_lookup (asc ''accept cookies or close'') [] (asc ''div'') =
      (asc ''cookie_consent'', 10)"
    by simp
  show ?thesis using a b c d by blast
qed

text \<open>
  Claim C2. \<open>categorize_button\<close> is total and its (category, priority) pair is always one
  of (cookie_consent, 10), (terms_agreement, 9), (submit, 8), (navigation, 7), (search, 6),
  (choice, 5), (cancel, 2), (general, 3); two results of the same category have the same
  priority, and every priority lies between 2 and 10.
\<close>

theorem categorize_button_pairs:
  "(category_of (categorize_button t ty tg), priority_of (categorize_button t ty tg)) \<in>
     {(asc ''cookie_consent'', 10), (asc ''terms_agreement'', 9), (asc ''submit'', 8),
      (asc ''navigation'', 7), (asc ''search'', 6), (asc ''choice'', 5),
      (asc ''cancel'', 2), (asc ''general'', 3)} \<and>
   2 \<le> priority_of (categorize_button t ty tg) \<and>
   priority_of (categorize_button t ty tg) \<le> 10 \<and>
   (\<forall>t' ty' tg'.
      category_of (categorize_button t' ty' tg') = category_of (categorize_button t ty tg) \<longrightarrow>
      priority_of (categorize_button t' ty' tg') = priority_of (categorize_button t ty tg))"
proof -
  have m: "(category_of (categorize_button a b c), priority_of (categorize_button a b c))
      \<in> set result_pairs" for a b c
    using cat_prio_in_pairs [of a b c] by (simp add: cat_prio_def)
  have "(category_of (categorize_button t ty tg), priority_of (categorize_button t ty tg)) \<in>
     {(asc ''cookie_consent'', 10), (asc ''terms_agreement'', 9), (asc ''submit'', 8),
      (asc ''navigation'', 7), (asc ''search'', 6), (asc ''choice'', 5),
      (asc ''cancel'', 2), (asc ''general'', 3)}"
    using m [of t ty tg] by (simp add: result_pairs_def)
  moreover have "2 \<le> priority_of (categorize_button t ty tg) \<and>
      priority_of (categorize_button t ty tg) \<le> 10"
    using m [of t ty tg] by (rule result_pairs_bounds)
  moreover have "priority_of (categorize_button t' ty' tg') =
      priority_of (categorize_button t ty tg)"
    if "category_of (categorize_button t' ty' tg') = category_of (categorize_button t ty tg)"
    for t' ty' tg'
    using m [of t' ty' tg'] m [of t ty tg] that result_pairs_functional by metis
  ultimately show ?thesis by blast
qed

theorem categorize_button_pairs_witness:
  "category_of (categorize_button (asc ''skip'') [] (asc ''a'')) =
     category_of (categorize_button (asc ''maybe later'') [] (asc ''button'')) \<and>
   priority_of (categorize_button (asc ''skip'') [] (asc ''a'')) =
     priority_of (categorize_button (asc ''maybe later'') [] (asc ''button'')) \<and>
   priority_of (categorize_button (asc ''maybe later'') [] (asc ''button'')) = 2"
proof -
  have a: "categorize_button (asc ''skip'') [] (asc ''a'') =
      (asc ''cancel'', 2, asc ''Cancel/Close Button: skip'')"
    by (simp add: categorize_button_def first_pattern_def pattern_defs asc_def)
  have b: "categorize_button (asc ''maybe later'') [] (asc ''button'') =
      (asc ''cancel'', 2, asc ''Cancel/Close Button: later'')"
    by (simp add: categorize_button_def first_pattern_def pattern_defs asc_def)
  have c: "category_of (categorize_button (asc ''skip'') [] (asc ''a'')) =
     category_of (categorize_button (asc ''maybe later'') [] (asc ''button''))"
    by (simp add: a b category_of_def)
  show ?thesis
    using c categorize_button_pairs [of "asc ''maybe later''" "[]" "asc ''button''"]
    by (simp add: b priority_of_def)
qed

text \<open>
  Claim C9. \<open>not now\<close> is a cancel keyword that contains the choice keyword \<open>no\<close>, and
  the choice list is tested before the cancel list: a button whose combined text contains
  \<open>not now\<close> and that matches none of the earlier tests (cookie, terms, submit,
  navigation, search) is categorized choice with priority 5, not cancel.
\<close>

theorem not_now_categorized_choice:
  "asc ''not now'' \<in> set cancel_patterns \<and> asc ''no'' \<in> set choice_patterns \<and>
   (py_in (asc ''not now'') t \<and> \<not> matches cookie_patterns t \<and> \<not> matches terms_patterns t \<and>
    \<not> submit_trigger t ty tg \<and> \<not> matches navigation_patterns t \<and>
    \<not> matches search_patterns t \<longrightarrow>
      category_of (categorize_button t ty tg) = asc ''choice'' \<and>
      priority_of (categorize_button t ty tg) = 5 \<and>
      category_of (categorize_button t ty tg) \<noteq> asc ''cancel'')"
proof -
  have "cat_prio (categorize_button t ty tg) = (asc ''choice'', 5)"
    if h: "py_in (asc ''not now'') t" "\<not> matches cookie_patterns t"
      "\<not> matches terms_patterns t" "\<not> submit_trigger t ty tg"
      "\<not> matches navigation_patterns t" "\<not> matches search_patterns t"
  proof -
    have "matches choice_patterns t"
      using no_is_choice no_in_not_now [OF h(1)] by (rule matches_member)
    with h show ?thesis by (simp add: cat_prio_categorize)
  qed
  moreover have "asc ''choice'' \<noteq> asc ''cancel''" by (simp add: asc_def)
  ultimately show ?thesis
    using no_is_choice not_now_is_cancel by (auto simp: cat_prio_def)
qed

theorem not_now_categorized_choice_witness:
  "py_in (asc ''not now'') (asc ''btn not now'') \<and>
   categorize_button (asc ''btn not now'') [] (asc ''button'') =
     (asc ''choice'', 5, asc ''Choice Button: no'')"
proof -
  have a: "py_in (asc ''not now'') (asc ''btn not now'')"
    by (simp add: asc_def)
  have b: "\<not> matches cookie_patterns (asc ''btn not now'')"
    by (simp add: matches_def cookie_patterns_def asc_def)
  have c: "\<not> matches terms_patterns (asc ''btn not now'')"
    by (simp add: matches_def terms_patterns_def asc_def)
  have d: "\<not> submit_trigger (asc ''btn not now'') [] (asc ''button'')"
    by (simp add: submit_trigger_def asc_def)
  have e: "\<not> matches navigation_patterns (asc ''btn not now'')"
    by (simp add: matches_def navigation_patterns_def asc_def)
  have f: "\<not> matches search_patterns (asc ''btn not now'')"
    by (simp add: matches_def search_patterns_def asc_def)
  have g: "categorize_button (asc ''btn not now'') [] (asc ''button'') =
     (asc ''choice'', 5, asc ''Choice Button: no'')"
    by (simp add: categorize_button_def first_pattern_def pattern_defs asc_def)
  show ?thesis
    using a b c d e f g
      not_now_categorized_choice [of "asc ''btn not now''" "[]" "asc ''button''"]
    by simp
qed

section \<open>Facts about the typing guard\<close>

lemma monitor_True: "fst (monitor e max_wait l s c w) = True"
proof (induction e max_wait l s c w rule: monitor.induct)
  case (1 e max_wait l s c w)
  show ?case
  proof (cases "c < max_wait")
    case False
    then show ?thesis by (simp add: monitor.simps)
  next
    case True
    obtain r w' where rw: "input_value e (sleep 1 w) = (r, w')" by (cases "input_value e (sleep 1 w)")
    show ?thesis
    proof (cases r)
      case Raises
      with True rw show ?thesis by (simp add: monitor.simps [of e max_wait l s c w])
    next
      case (Value v)
      with True rw "1.IH" show ?thesis
        by (auto simp: monitor.simps [of e max_wait l s c w])
    qed
  qed
qed

lemma wait_True: "fst (wait_for_typing_completion e max_wait w) = True"
  by (simp add: wait_for_typing_completion_def monitor_True Let_def
      split: prod.splits reading.splits)

lemma click_button_message:
  "message (fst (click_button b w)) \<noteq> asc ''Timeout waiting for typing completion''"
  by (simp add: click_button_def Let_def asc_def split: option.splits)

lemmas run_defs = wait_for_typing_completion_def input_value_def print_event_def sleep_def
  world0_def field_def strip_def isspace_def Let_def

lemma smart_click_is_click: "\<exists>w'. smart_button_click typing b w = click_button b w'"
proof (cases "if category b \<in> set [asc ''submit'', asc ''search'', asc ''navigation'']
              then associated_input b else None")
  case None
  show ?thesis
    unfolding smart_button_click_def Let_def None by auto
next
  case (Some inp)
  let ?w2 = "print_event (Print_found_input (inp_value inp))
      (print_event (Print_processing (category b) (description b)) w)"
  obtain ok w3 where r: "wait_for_typing_completion (inp_element inp) 30 ?w2 = (ok, w3)"
    by (cases "wait_for_typing_completion (inp_element inp) 30 ?w2")
  then have "ok" using wait_True [of "inp_element inp" 30 ?w2] by simp
  with r show ?thesis
    unfolding smart_button_click_def Let_def Some by auto
qed

lemma click_button_clicking:
  "Print_clicking (category b) \<in> set (trace (snd (click_button b w)))"
  by (simp add: click_button_def Let_def print_event_def sleep_def split: option.splits)

lemma click_button_success:
  "el_click (element b) (print_event (Print_clicking (category b)) w) = None \<Longrightarrow>
   success (fst (click_button b w)) \<and>
   Do_click (button_text b) \<in> set (trace (snd (click_button b w)))"
  by (simp add: click_button_def Let_def print_event_def sleep_def)

lemma smart_click_after_guard:
  assumes "category b \<in> {asc ''submit'', asc ''search'', asc ''navigation''}"
    and "associated_input b = Some inp"
    and "strip (inp_value inp) = [] \<or>
         typing (print_event (Print_found_input (inp_value inp))
           (print_event (Print_processing (category b) (description b)) w))"
  shows "smart_button_click typing b w =
     click_button b (snd (wait_for_typing_completion (inp_element inp) 30
       (print_event (Print_found_input (inp_value inp))
         (print_event (Print_processing (category b) (description b)) w))))"
proof -
  let ?w2 = "print_event (Print_found_input (inp_value inp))
         (print_event (Print_processing (category b) (description b)) w)"
  obtain ok w3 where r: "wait_for_typing_completion (inp_element inp) 30 ?w2 = (ok, w3)"
    by (cases "wait_for_typing_completion (inp_element inp) 30 ?w2")
  then have "ok" using wait_True [of "inp_element inp" 30 ?w2] by simp
  with r assms show ?thesis
    unfolding smart_button_click_def Let_def by auto
qed

section \<open>The typing guard: claims\<close>

text \<open>
  Claim C4, as stated: with the readings \<open>""\<close>, \<open>""\<close>, \<open>""\<close>, \<open>"a"\<close>, \<open>"ab"\<close>,
  \<open>"ab"\<close>, \<open>"ab"\<close>, \<open>"ab"\<close> the guard reports typing complete after the third
  unchanged \<open>"ab"\<close> and not before. The program does not: the first reading is empty, so
  it sleeps five seconds and reads once more. When the readings come one per call, that
  second reading is empty too and the guard returns at once with "No typing detected",
  having read twice. When the readings come one per second of the clock, the second
  reading is the one of second 5; the polls then run out of readings after one unchanged
  \<open>"ab"\<close>. Neither run reports typing complete.
\<close>

theorem typing_guard_claimed_readings_counterexample:
  "wait_for_typing_completion
     (field (successive [[], [], [], asc ''a'', asc ''ab'', asc ''ab'', asc ''ab'', asc ''ab'']))
     30 world0 =
     (True, \<lparr>reads = 2, clock = 5,
        trace = [Print_waiting, Print_field_empty, Print_no_typing]\<rparr>) \<and>
   wait_for_typing_completion
     (field (per_second [[], [], [], asc ''a'', asc ''ab'', asc ''ab'', asc ''ab'', asc ''ab'']))
     30 world0 =
     (True, \<lparr>reads = 5, clock = 8,
        trace = [Print_waiting, Print_field_empty, Print_typing_progress 2,
                 Print_error_monitoring, Print_max_wait]\<rparr>)"
  by (simp add: run_defs successive_def per_second_def asc_def monitor.simps)

text \<open>
  Claim C4, amended: when only the first reading is empty (\<open>""\<close>, \<open>"a"\<close>, \<open>"ab"\<close>,
  \<open>"ab"\<close>, \<open>"ab"\<close>, \<open>"ab"\<close>, one per call), the guard passes the five-second
  re-check, polls, and reports typing complete exactly at the sixth reading, which is the
  third consecutive poll that returns \<open>"ab"\<close> unchanged. It does not report it earlier:
  limited to three polls it ends by time-out after the second unchanged \<open>"ab"\<close>. When
  the second reading is empty as well, as in the readings the claim lists, the guard
  returns success at that reading and never polls.
\<close>

theorem typing_guard_stable_after_third_repeat:
  "((\<forall>w. reads w < 6 \<longrightarrow>
       el_value input_element w =
         Value ([[], asc ''a'', asc ''ab'', asc ''ab'', asc ''ab'', asc ''ab''] ! reads w)) \<longrightarrow>
     (4 \<le> max_wait \<longrightarrow>
       wait_for_typing_completion input_element max_wait world0 =
        (True, \<lparr>reads = 6, clock = 9,
           trace = [Print_waiting, Print_field_empty, Print_typing_progress 2,
                    Print_typing_complete]\<rparr>)) \<and>
     (max_wait = 3 \<longrightarrow>
       wait_for_typing_completion input_element max_wait world0 =
        (True, \<lparr>reads = 5, clock = 8,
           trace = [Print_waiting, Print_field_empty, Print_typing_progress 2,
                    Print_max_wait]\<rparr>))) \<and>
   ((\<forall>w. reads w < 2 \<longrightarrow> el_value input_element w = Value []) \<longrightarrow>
     wait_for_typing_completion input_element max_wait world0 =
       (True, \<lparr>reads = 2, clock = 5,
          trace = [Print_waiting, Print_field_empty, Print_no_typing]\<rparr>))"
proof -
  have a: "wait_for_typing_completion input_element max_wait world0 =
        (True, \<lparr>reads = 6, clock = 9,
           trace = [Print_waiting, Print_field_empty, Print_typing_progress 2,
                    Print_typing_complete]\<rparr>)"
    if "\<forall>w. reads w < 6 \<longrightarrow>
       el_value input_element w =
         Value ([[], asc ''a'', asc ''ab'', asc ''ab'', asc ''ab'', asc ''ab''] ! reads w)"
      and "4 \<le> max_wait"
    using that by (simp add: run_defs asc_def monitor.simps)
  have b: "wait_for_typing_completion input_element max_wait world0 =
        (True, \<lparr>reads = 5, clock = 8,
           trace = [Print_waiting, Print_field_empty, Print_typing_progress 2,
                    Print_max_wait]\<rparr>)"
    if "\<forall>w. reads w < 6 \<longrightarrow>
       el_value input_element w =
         Value ([[], asc ''a'', asc ''ab'', asc ''ab'', asc ''ab'', asc ''ab''] ! reads w)"
      and "max_wait = 3"
    using that by (simp add: run_defs asc_def monitor.simps)
  have c: "wait_for_typing_completion input_element max_wait world0 =
       (True, \<lparr>reads = 2, clock = 5,
          trace = [Print_waiting, Print_field_empty, Print_no_typing]\<rparr>)"
    if "\<forall>w. reads w < 2 \<longrightarrow> el_value input_element w = Value []"
    using that by (simp add: run_defs)
  show ?thesis using a b c by blast
qed

theorem typing_guard_stable_after_third_repeat_witness:
  "wait_for_typing_completion
     (field (successive [[], asc ''a'', asc ''ab'', asc ''ab'', asc ''ab'', asc ''ab''])) 30 world0 =
     (True, \<lparr>reads = 6, clock = 9,
        trace = [Print_waiting, Print_field_empty, Print_typing_progress 2,
                 Print_typing_complete]\<rparr>) \<and>
   wait_for_typing_completion
     (field (successive [[], asc ''a'', asc ''ab'', asc ''ab'', asc ''ab'', asc ''ab''])) 3 world0 =
     (True, \<lparr>reads = 5, clock = 8,
        trace = [Print_waiting, Print_field_empty, Print_typing_progress 2,
                 Print_max_wait]\<rparr>) \<and>
   wait_for_typing_completion (field (successive [[], [], asc ''late''])) 30 world0 =
     (True, \<lparr>reads = 2, clock = 5,
        trace = [Print_waiting, Print_field_empty, Print_no_typing]\<rparr>)"
proof -
  have h: "\<forall>w. reads w < 6 \<longrightarrow>
      el_value (field (successive [[], asc ''a'', asc ''ab'', asc ''ab'', asc ''ab'', asc ''ab''])) w =
        Value ([[], asc ''a'', asc ''ab'', asc ''ab'', asc ''ab'', asc ''ab''] ! reads w)"
    by (simp add: field_def successive_def)
  have k: "\<forall>w. reads w < 2 \<longrightarrow>
      el_value (field (successive [[], [], asc ''late''])) w = Value []"
    by (auto simp: field_def successive_def less_Suc_eq numeral_2_eq_2)
  show ?thesis
    using h k
      typing_guard_stable_after_third_repeat
        [of "field (successive [[], asc ''a'', asc ''ab'', asc ''ab'', asc ''ab'', asc ''ab''])" 30]
      typing_guard_stable_after_third_repeat
        [of "field (successive [[], asc ''a'', asc ''ab'', asc ''ab'', asc ''ab'', asc ''ab''])" 3]
      typing_guard_stable_after_third_repeat [of "field (successive [[], [], asc ''late''])" 30]
    by simp
qed

text \<open>
  Claim C5. For every input element, whatever its reads return or raise, and every cycle
  limit, \<open>wait_for_typing_completion\<close> returns \<open>True\<close>. So \<open>smart_button_click\<close>
  always goes on to the click: its result is that of the click itself, made in the world
  the guard left behind when the guard ran; it prints "Clicking ... button", succeeds
  whenever the click does not raise, and never returns the "Timeout waiting for typing
  completion" failure.
\<close>

theorem typing_guard_fails_open:
  "fst (wait_for_typing_completion input_element max_wait w) = True \<and>
   (\<exists>w'. smart_button_click typing button_info w = click_button button_info w') \<and>
   (category button_info \<in> {asc ''submit'', asc ''search'', asc ''navigation''} \<and>
    associated_input button_info = Some inp \<and>
    (strip (inp_value inp) = [] \<or>
     typing (print_event (Print_found_input (inp_value inp))
       (print_event (Print_processing (category button_info) (description button_info)) w))) \<longrightarrow>
      smart_button_click typing button_info w =
        click_button button_info (snd (wait_for_typing_completion (inp_element inp) 30
          (print_event (Print_found_input (inp_value inp))
            (print_event (Print_processing (category button_info) (description button_info))
              w))))) \<and>
   Print_clicking (category button_info) \<in>
     set (trace (snd (smart_button_click typing button_info w))) \<and>
   ((\<forall>w'. el_click (element button_info) w' = None) \<longrightarrow>
      success (fst (smart_button_click typing button_info w)) \<and>
      Do_click (button_text button_info) \<in>
        set (trace (snd (smart_button_click typing button_info w)))) \<and>
   message (fst (smart_button_click typing button_info w)) \<noteq>
     asc ''Timeout waiting for typing completion''"
proof -
  obtain w' where c: "smart_button_click typing button_info w = click_button button_info w'"
    using smart_click_is_click by blast
  have a: "\<exists>w'. smart_button_click typing button_info w = click_button button_info w'"
    using c by blast
  have p: "Print_clicking (category button_info) \<in>
     set (trace (snd (smart_button_click typing button_info w)))"
    unfolding c by (rule click_button_clicking)
  have s: "success (fst (smart_button_click typing button_info w)) \<and>
      Do_click (button_text button_info) \<in>
        set (trace (snd (smart_button_click typing button_info w)))"
    if "\<forall>w'. el_click (element button_info) w' = None"
    unfolding c using that by (simp add: click_button_success)
  have m: "message (fst (smart_button_click typing button_info w)) \<noteq>
     asc ''Timeout waiting for typing completion''"
    unfolding c by (rule click_button_message)
  show ?thesis
    using wait_True [of input_element max_wait w] a p s m
      smart_click_after_guard [of button_info inp typing w]
    by blast
qed

text \<open>
  A submit button whose field changes at every read waits out all 30 polls and is then
  clicked; one whose field raises at the first poll is clicked right after the error.
\<close>

theorem typing_guard_fails_open_witness:
  "success (fst (smart_button_click (\<lambda>w. False) (guarded_submit restless) world0)) \<and>
   Print_max_wait \<in>
     set (trace (snd (smart_button_click (\<lambda>w. False) (guarded_submit restless) world0))) \<and>
   Do_click (asc ''go'') \<in>
     set (trace (snd (smart_button_click (\<lambda>w. False) (guarded_submit restless) world0))) \<and>
   reads (snd (smart_button_click (\<lambda>w. False) (guarded_submit restless) world0)) = 31 \<and>
   smart_button_click (\<lambda>w. False) (guarded_submit read_once) world0 =
     (\<lparr>success = True, message = asc ''Successfully clicked submit button'',
       result_category = asc ''submit'', result_button_text = Some (asc ''go'')\<rparr>,
      \<lparr>reads = 2, clock = 3,
       trace = [Print_processing (asc ''submit'') (asc ''Form Submit Button''),
                Print_found_input [], Print_waiting, Print_error_monitoring, Print_max_wait,
                Print_clicking (asc ''submit''), Do_click (asc ''go''),
                Print_clicked (asc ''submit'')]\<rparr>)"
proof -
  define inp where "inp e = \<lparr>inp_element = e, inp_type = asc ''text'', inp_placeholder = [],
      inp_value = []\<rparr>" for e :: element
  have d: "categorize_button (asc ''go     '') (asc ''submit'') (asc ''button'') =
      (asc ''submit'', 8, asc ''Form Submit Button'')"
    by (simp add: categorize_button_def first_pattern_def pattern_defs asc_def)
  have c: "category (guarded_submit e) = asc ''submit''"
    "description (guarded_submit e) = asc ''Form Submit Button''"
    "button_text (guarded_submit e) = asc ''go''"
    "el_click (element (guarded_submit e)) = (\<lambda>w. None)"
    "associated_input (guarded_submit e) = Some (inp e)" for e
    by (simp_all add: guarded_submit_def button_record_def d field_def inp_def)
  have i: "inp_value (inp e) = []" "inp_element (inp e) = e" for e
    by (simp_all add: inp_def)
  have s: "strip [] = []" by (simp add: strip_def)
  have g: "smart_button_click (\<lambda>w. False) (guarded_submit e) world0 =
      click_button (guarded_submit e) (snd (wait_for_typing_completion e 30
        (print_event (Print_found_input [])
          (print_event (Print_processing (asc ''submit'') (asc ''Form Submit Button''))
            world0))))" for e
    using typing_guard_fails_open [of e 30 world0 "\<lambda>w. False" "guarded_submit e" "inp e"]
    by (simp add: c i s)
  have r: "reads (snd (wait_for_typing_completion restless 30
        (print_event (Print_found_input [])
          (print_event (Print_processing (asc ''submit'') (asc ''Form Submit Button''))
            world0)))) = 31 \<and>
      Print_max_wait \<in> set (trace (snd (wait_for_typing_completion restless 30
        (print_event (Print_found_input [])
          (print_event (Print_processing (asc ''submit'') (asc ''Form Submit Button''))
            world0)))))"
    by (simp add: restless_def wait_for_typing_completion_def input_value_def print_event_def
        sleep_def world0_def field_def strip_def isspace_def Let_def monitor.simps)
  have o: "snd (wait_for_typing_completion read_once 30
        (print_event (Print_found_input [])
          (print_event (Print_processing (asc ''submit'') (asc ''Form Submit Button''))
            world0))) =
      \<lparr>reads = 2, clock = 1,
       trace = [Print_processing (asc ''submit'') (asc ''Form Submit Button''),
                Print_found_input [], Print_waiting, Print_error_monitoring, Print_max_wait]\<rparr>"
    by (simp add: read_once_def wait_for_typing_completion_def input_value_def print_event_def
        sleep_def world0_def field_def strip_def isspace_def Let_def monitor.simps)
  have k: "smart_button_click (\<lambda>w. False) (guarded_submit read_once) world0 =
     (\<lparr>success = True, message = asc ''Successfully clicked submit button'',
       result_category = asc ''submit'', result_button_text = Some (asc ''go'')\<rparr>,
      \<lparr>reads = 2, clock = 3,
       trace = [Print_processing (asc ''submit'') (asc ''Form Submit Button''),
                Print_found_input [], Print_waiting, Print_error_monitoring, Print_max_wait,
                Print_clicking (asc ''submit''), Do_click (asc ''go''),
                Print_clicked (asc ''submit'')]\<rparr>)"
    unfolding g o
    by (simp add: click_button_def Let_def c print_event_def sleep_def asc_def)
  have n: "\<forall>w'. el_click (element (guarded_submit restless)) w' = None"
    by (simp add: c)
  have u: "success (fst (smart_button_click (\<lambda>w. False) (guarded_submit restless) world0)) \<and>
      Do_click (asc ''go'') \<in>
        set (trace (snd (smart_button_click (\<lambda>w. False) (guarded_submit restless) world0)))"
    using typing_guard_fails_open
      [of restless 30 world0 "\<lambda>w. False" "guarded_submit restless" "inp restless"] n
    by (simp add: c)
  have v: "reads (snd (smart_button_click (\<lambda>w. False) (guarded_submit restless) world0)) = 31 \<and>
      Print_max_wait \<in>
        set (trace (snd (smart_button_click (\<lambda>w. False) (guarded_submit restless) world0)))"
    unfolding g using r
    by (simp add: click_button_def Let_def c print_event_def sleep_def)
  show ?thesis using k u v by blast
qed

section \<open>Facts about sorting and the processing loop\<close>

lemma sort_reverse_mset: "mset (sort_reverse key xs) = mset xs"
  by (simp add: sort_reverse_def)

lemma sort_reverse_sorted: "sorted_wrt (\<lambda>a b. key a \<ge> key b) (sort_reverse key xs)"
proof -
  have "sorted (map key (sort_key key (rev xs)))" by simp
  then have "sorted_wrt (\<lambda>a b. key a \<le> key b) (sort_key key (rev xs))"
    by (simp add: sorted_map)
  then show ?thesis by (simp add: sort_reverse_def sorted_wrt_rev)
qed

lemma sort_reverse_stable:
  "filter (\<lambda>x. key x = k) (sort_reverse key xs) = filter (\<lambda>x. key x = k) xs"
proof -
  have "filter (\<lambda>x. key x = k) (sort_reverse key xs) =
      rev (filter (\<lambda>x. key x = k) (sort_key key (rev xs)))"
    by (simp add: sort_reverse_def rev_filter)
  also have "\<dots> = rev (filter (\<lambda>x. key x = k) (rev xs))"
    by (simp only: sort_key_stable)
  also have "\<dots> = filter (\<lambda>x. key x = k) xs"
    by (simp add: rev_filter)
  finally show ?thesis .
qed

lemma insort_key_map:
  "insort_key f (g x) (map g xs) = map g (insort_key (\<lambda>y. f (g y)) x xs)"
  by (induction xs) auto

lemma sort_key_map: "sort_key f (map g xs) = map g (sort_key (\<lambda>y. f (g y)) xs)"
  by (induction xs) (auto simp: insort_key_map)

lemma sort_reverse_map:
  "sort_reverse f (map g xs) = map g (sort_reverse (\<lambda>y. f (g y)) xs)"
  by (simp add: sort_reverse_def rev_map sort_key_map)

lemma scan_buttons_order: "scan_buttons bs = map scan_entry_of (sort_reverse priority bs)"
proof -
  have "(\<lambda>y. scan_priority (scan_entry_of y)) = priority"
    by (simp add: scan_entry_of_def fun_eq_iff)
  then show ?thesis by (simp add: scan_buttons_def sort_reverse_map)
qed

lemma rank_values:
  "rank category_order (asc ''cookie_consent'') = 0"
  "rank category_order (asc ''terms_agreement'') = 1"
  "rank category_order (asc ''submit'') = 2"
  "rank category_order (asc ''navigation'') = 3"
  "rank category_order (asc ''search'') = 4"
  "rank category_order (asc ''choice'') = 5"
  "rank category_order (asc ''general'') = 6"
  "rank category_order (asc ''cancel'') = 7"
  by (simp_all add: category_order_def asc_def)

lemma rank_of_pair:
  "(c, p) \<in> set result_pairs \<Longrightarrow>
   int (rank category_order c) = (if p = 3 then 6 else if p = 2 then 7 else 10 - p)"
  unfolding result_pairs_def
  by (auto simp: rank_values)

lemma priority_of_pair: "(c, p) \<in> set result_pairs \<Longrightarrow> p \<in> {10, 9, 8, 7, 6, 5, 2, 3}"
  by (auto simp: result_pairs_def)

lemma rank_antimono:
  assumes "(c, p) \<in> set result_pairs" "(c', p') \<in> set result_pairs" "p' \<le> p"
  shows "rank category_order c \<le> rank category_order c'"
proof -
  have "int (rank category_order c) \<le> int (rank category_order c')"
    using priority_of_pair [OF assms(1)] priority_of_pair [OF assms(2)] assms(3)
    unfolding rank_of_pair [OF assms(1)] rank_of_pair [OF assms(2)]
    by auto
  then show ?thesis by simp
qed

lemma analyzed_pair: "analyzed b \<Longrightarrow> (category b, priority b) \<in> set result_pairs"
  using cat_prio_in_pairs by (simp add: analyzed_def)

lemma sorted_rank:
  assumes "\<forall>b\<in>set bs. analyzed b"
  shows "sorted (map (\<lambda>b. rank category_order (category b)) (sort_reverse priority bs))"
proof -
  have s: "set (sort_reverse priority bs) = set bs"
    by (simp add: sort_reverse_def)
  have "sorted_wrt (\<lambda>a b. rank category_order (category a) \<le> rank category_order (category b))
      (sort_reverse priority bs)"
  proof (rule sorted_wrt_mono_rel [OF _ sort_reverse_sorted])
    fix a b
    assume "a \<in> set (sort_reverse priority bs)" "b \<in> set (sort_reverse priority bs)"
      "priority b \<le> priority a"
    then show "rank category_order (category a) \<le> rank category_order (category b)"
      using assms s analyzed_pair rank_antimono by metis
  qed
  then show ?thesis by (simp add: sorted_map)
qed

lemma button_record_fields:
  "category (button_record e txt combined ty tg inp) = category_of (categorize_button combined ty tg)"
  "priority (button_record e txt combined ty tg inp) = priority_of (categorize_button combined ty tg)"
  "button_text (button_record e txt combined ty tg inp) = txt"
  "combined_text (button_record e txt combined ty tg inp) = combined"
  "type_attr (button_record e txt combined ty tg inp) = ty"
  "tag_name (button_record e txt combined ty tg inp) = tg"
  "associated_input (button_record e txt combined ty tg inp) = inp"
  "element (button_record e txt combined ty tg inp) = e"
  by (simp_all add: button_record_def category_of_def priority_of_def split: prod.splits)

lemma button_record_analyzed: "analyzed (button_record e txt combined ty tg inp)"
  by (simp add: analyzed_def button_record_fields cat_prio_def)

lemma plain_button_cat_prio:
  "(category (plain_button txt), priority (plain_button txt)) =
   cat_prio (categorize_button (txt @ asc ''     '') [] (asc ''button''))"
  by (simp add: plain_button_def button_record_fields cat_prio_def)

lemma plain_buttons:
  "(category (plain_button (asc ''close'')), priority (plain_button (asc ''close''))) = (asc ''cancel'', 2)"
  "(category (plain_button (asc ''hello'')), priority (plain_button (asc ''hello''))) = (asc ''general'', 3)"
  "(category (plain_button (asc ''skip'')), priority (plain_button (asc ''skip''))) = (asc ''cancel'', 2)"
  "(category (plain_button (asc ''accept all'')), priority (plain_button (asc ''accept all''))) = (asc ''cookie_consent'', 10)"
  "(category (plain_button (asc ''submit'')), priority (plain_button (asc ''submit''))) = (asc ''submit'', 8)"
  unfolding plain_button_cat_prio
  by (simp_all add: cat_prio_categorize matches_def submit_trigger_def pattern_defs asc_def)

lemma click_button_category: "result_category (fst (click_button b w)) = category b"
  by (simp add: click_button_def Let_def split: option.splits)

lemma smart_click_category: "result_category (fst (smart_button_click typing b w)) = category b"
  using smart_click_is_click [of typing b w] click_button_category by auto

lemma process_loop_stops:
  assumes "\<forall>x\<in>set pre. category x \<notin> {asc ''navigation'', asc ''submit''}"
    and "category b \<in> {asc ''navigation'', asc ''submit''}"
  shows "process_loop typing n i (pre @ b # post) rs pc w =
         process_loop typing n i (pre @ [b]) rs pc w"
  using assms
proof (induction pre arbitrary: i rs pc w)
  case Nil
  then show ?case by (auto simp: Let_def split: prod.splits)
next
  case (Cons x pre)
  then show ?case by (auto simp: Let_def split: prod.splits)
qed

lemma process_loop_categories:
  assumes "\<forall>x\<in>set pre. category x \<notin> {asc ''navigation'', asc ''submit''}"
    and "category b \<in> {asc ''navigation'', asc ''submit''}"
  shows "map result_category (fst (process_loop typing n i (pre @ [b]) rs pc w)) =
         map result_category rs @ map category (pre @ [b])"
  using assms
proof (induction pre arbitrary: i rs pc w)
  case Nil
  obtain r w2 where c: "smart_button_click typing b
      (print_event (Print_description (description b))
        (print_event (Print_category (category b) (priority b))
          (print_event (Print_button_index i n) w))) = (r, w2)"
    by (cases "smart_button_click typing b
      (print_event (Print_description (description b))
        (print_event (Print_category (category b) (priority b))
          (print_event (Print_button_index i n) w)))")
  then have "result_category r = category b"
    using smart_click_category by (metis fst_conv)
  with Nil c show ?case by (auto simp: Let_def)
next
  case (Cons x pre)
  obtain r w2 where c: "smart_button_click typing x
      (print_event (Print_description (description x))
        (print_event (Print_category (category x) (priority x))
          (print_event (Print_button_index i n) w))) = (r, w2)"
    by (cases "smart_button_click typing x
      (print_event (Print_description (description x))
        (print_event (Print_category (category x) (priority x))
          (print_event (Print_button_index i n) w)))")
  then have k: "result_category r = category x"
    using smart_click_category by (metis fst_conv)
  have n: "category x \<noteq> asc ''navigation''" "category x \<noteq> asc ''submit''"
    using Cons.prems by auto
  show ?case
    using Cons.IH [of "i + 1" "rs @ [r]" _ _] Cons.prems c k n
    by (auto simp: Let_def)
qed

lemma find_skip:
  "\<forall>e\<in>set pre. \<not> P e \<Longrightarrow> P x \<Longrightarrow> find P (pre @ x # post) = Some x"
  by (induction pre) auto

lemma find_text_like_inputs:
  assumes "\<forall>e\<in>set pre. \<not> (text_like e \<and> (el_tag e = asc ''input'' \<or> el_tag e = asc ''textarea''))"
    and "text_like x" and "el_tag x = asc ''textarea''"
  shows "find text_like (query_inputs (pre @ x # post)) = Some x"
proof -
  have "query_inputs (pre @ x # post) = query_inputs pre @ x # query_inputs post"
    using assms(3) by (simp add: query_inputs_def)
  moreover have "\<forall>e\<in>set (query_inputs pre). \<not> text_like e"
    using assms(1) by (auto simp: query_inputs_def)
  ultimately show ?thesis using assms(2) by (simp add: find_skip)
qed

section \<open>Sorting and processing: claims\<close>

text \<open>
  Claim C7. Sorting a list of Button Records by priority, descending, as
  \<open>process_all_buttons\<close> and \<open>scan_buttons\<close> do, is total and stable: the result is a
  rearrangement of the list, priorities never increase along it, and the records of any
  one priority keep their original order. For records whose category and priority come
  from \<open>categorize_button\<close> the result is therefore ordered cookie_consent,
  terms_agreement, submit, navigation, search, choice, general, cancel. \<open>scan_buttons\<close>
  returns its entries in the same order.
\<close>

theorem sort_by_priority_stable:
  "mset (sort_reverse priority bs) = mset bs \<and>
   sorted_wrt (\<lambda>a b. priority a \<ge> priority b) (sort_reverse priority bs) \<and>
   (\<forall>k. filter (\<lambda>b. priority b = k) (sort_reverse priority bs) =
         filter (\<lambda>b. priority b = k) bs) \<and>
   ((\<forall>b\<in>set bs. analyzed b) \<longrightarrow>
      sorted (map (\<lambda>b. rank category_order (category b)) (sort_reverse priority bs))) \<and>
   scan_buttons bs = map scan_entry_of (sort_reverse priority bs)"
  using sort_reverse_mset [of priority bs] sort_reverse_sorted [of priority bs]
    sort_reverse_stable [of priority _ bs] sorted_rank [of bs] scan_buttons_order [of bs]
  by blast

theorem sort_by_priority_stable_witness:
  "list_all analyzed [plain_button (asc ''close''), plain_button (asc ''hello''),
       plain_button (asc ''skip''), plain_button (asc ''accept all'')] \<and>
   map button_text (sort_reverse priority
     [plain_button (asc ''close''), plain_button (asc ''hello''),
      plain_button (asc ''skip''), plain_button (asc ''accept all'')]) =
     [asc ''accept all'', asc ''hello'', asc ''close'', asc ''skip''] \<and>
   sorted (map (\<lambda>b. rank category_order (category b)) (sort_reverse priority
     [plain_button (asc ''close''), plain_button (asc ''hello''),
      plain_button (asc ''skip''), plain_button (asc ''accept all'')]))"
proof -
  let ?bs = "[plain_button (asc ''close''), plain_button (asc ''hello''),
      plain_button (asc ''skip''), plain_button (asc ''accept all'')]"
  have a: "\<forall>b \<in> set ?bs. analyzed b"
    by (simp add: plain_button_def button_record_analyzed)
  have p: "priority (plain_button (asc ''close'')) = 2" "priority (plain_button (asc ''hello'')) = 3"
    "priority (plain_button (asc ''skip'')) = 2" "priority (plain_button (asc ''accept all'')) = 10"
    using plain_buttons by simp_all
  have t: "button_text (plain_button x) = x" for x
    by (simp add: plain_button_def button_record_fields)
  have s: "map button_text (sort_reverse priority ?bs) =
      [asc ''accept all'', asc ''hello'', asc ''close'', asc ''skip'']"
    by (simp add: sort_reverse_def p t)
  have "list_all analyzed ?bs" using a by (simp only: list_all_iff)
  then show ?thesis
    using a s sort_by_priority_stable [of ?bs] by blast
qed

text \<open>
  Claim C6. In \<open>process_all_buttons\<close>, once a button whose category is navigation or
  submit has been processed, the loop stops, whether or not its click succeeded: when
  the sorted list is \<open>pre @ b # post\<close> with \<open>b\<close> the first navigation or submit button,
  exactly the buttons of \<open>pre\<close> and \<open>b\<close> get a result, and the loop does what it would
  do were \<open>post\<close> not there.
\<close>

theorem process_stops_after_navigation_or_submit:
  assumes "loaded" and "found \<noteq> []"
    and "sort_reverse priority (filter_buttons categories_filter found) = pre @ b # post"
    and "\<forall>x\<in>set pre. category x \<notin> {asc ''navigation'', asc ''submit''}"
    and "category b \<in> {asc ''navigation'', asc ''submit''}"
  shows "(\<exists>msg processed results w'.
      process_all_buttons typing url loaded found categories_filter w =
        (Processed msg (length pre + 1 + length post) processed results, w') \<and>
      map result_category results = map category (pre @ [b]) \<and>
      length results = length pre + 1) \<and>
    (\<forall>n i rs pc w0. process_loop typing n i (pre @ b # post) rs pc w0 =
                      process_loop typing n i (pre @ [b]) rs pc w0)"
proof -
  have stop: "process_loop typing n i (pre @ b # post) rs pc w0 =
      process_loop typing n i (pre @ [b]) rs pc w0" for n i rs pc w0
    using assms(4,5) by (rule process_loop_stops)
  define w2 where "w2 =
    (case categories_filter of
       None \<Rightarrow> print_event (Print_found (length found))
                 (print_event Print_scanning (print_event (Print_loading url) w))
     | Some cs \<Rightarrow>
         if cs = [] then print_event (Print_found (length found))
                 (print_event Print_scanning (print_event (Print_loading url) w))
         else print_event
                (Print_filtered (length (filter_buttons categories_filter found)) cs)
                (print_event (Print_found (length found))
                  (print_event Print_scanning (print_event (Print_loading url) w))))"
  obtain results processed w3 where
    l: "process_loop typing (length (pre @ b # post)) 1 (pre @ [b]) [] 0 w2 =
        (results, processed, w3)"
    by (cases "process_loop typing (length (pre @ b # post)) 1 (pre @ [b]) [] 0 w2")
  have c: "map result_category results = map category (pre @ [b])"
    using process_loop_categories [OF assms(4,5), of typing "length (pre @ b # post)" 1 "[]" 0 w2] l
    by simp
  then have "length (map result_category results) = length (map category (pre @ [b]))"
    by simp
  then have n: "length results = length pre + 1" by simp
  have "process_all_buttons typing url loaded found categories_filter w =
      (Processed (asc ''Processed '' @ str_nat processed @ asc '' buttons successfully'')
         (length pre + 1 + length post) processed results, w3)"
    using assms(1,2) l
    by (simp add: process_all_buttons_def Let_def assms(3) stop w2_def)
  with c n stop show ?thesis by blast
qed

theorem process_stops_after_navigation_or_submit_witness:
  "sort_reverse priority (filter_buttons None
      [plain_button (asc ''hello''), plain_button (asc ''submit''), plain_button (asc ''close'')]) =
     [] @ plain_button (asc ''submit'') #
       [plain_button (asc ''hello''), plain_button (asc ''close'')] \<and>
   (\<exists>msg processed results w'.
      process_all_buttons (\<lambda>w. False) (asc ''http://x'') True
        [plain_button (asc ''hello''), plain_button (asc ''submit''), plain_button (asc ''close'')]
        None world0 = (Processed msg 3 processed results, w') \<and>
      map result_category results = [asc ''submit''] \<and> length results = 1)"
proof -
  let ?found = "[plain_button (asc ''hello''), plain_button (asc ''submit''),
      plain_button (asc ''close'')]"
  have p: "priority (plain_button (asc ''close'')) = 2" "priority (plain_button (asc ''hello'')) = 3"
    "priority (plain_button (asc ''submit'')) = 8"
    "category (plain_button (asc ''submit'')) = asc ''submit''"
    using plain_buttons by simp_all
  have s: "sort_reverse priority (filter_buttons None ?found) =
     [] @ plain_button (asc ''submit'') #
       [plain_button (asc ''hello''), plain_button (asc ''close'')]"
    by (simp add: sort_reverse_def filter_buttons_def p)
  have a: "\<forall>x\<in>set []. category x \<notin> {asc ''navigation'', asc ''submit''}" by simp
  have b: "category (plain_button (asc ''submit'')) \<in> {asc ''navigation'', asc ''submit''}"
    by (simp add: p)
  have f: "?found \<noteq> []" by simp
  show ?thesis
    using s process_stops_after_navigation_or_submit [OF TrueI f s a b, of "\<lambda>w. False" "asc ''http://x''" world0]
    by (simp add: p numeral_3_eq_3)
qed

section \<open>The associated input: claims\<close>

text \<open>
  Claim C10. \<open>find_associated_input\<close> treats a visible, enabled textarea in the
  button's parent container as a text-like input: without a \<open>type\<close> attribute it gets
  the default type \<open>text\<close>, which passes the text/search/email/url filter. When no
  earlier input or textarea of the container passes and its value can be read, the
  textarea becomes the associated input; a submit, search or navigation button with that
  associated input and an empty value then runs the typing guard on the textarea before
  the click.
\<close>

theorem textarea_becomes_associated_input:
  assumes "el_tag ta = asc ''textarea''" and "get_attribute ta (asc ''type'') = None"
    and "el_visible ta" and "el_enabled ta"
    and "\<forall>e\<in>set pre. \<not> (text_like e \<and> (el_tag e = asc ''input'' \<or> el_tag e = asc ''textarea''))"
    and "el_value ta w = Value v"
  shows "type_or_text ta = asc ''text'' \<and> text_like ta \<and>
    fst (find_associated_input (Some (pre @ ta # post)) w) =
      Some \<lparr>inp_element = ta, inp_type = asc ''text'',
        inp_placeholder =
          (case get_attribute ta (asc ''placeholder'') of None \<Rightarrow> [] | Some p \<Rightarrow> p),
        inp_value = v\<rparr> \<and>
    (\<forall>typing b w'.
       category b \<in> {asc ''submit'', asc ''search'', asc ''navigation''} \<and>
       associated_input b = fst (find_associated_input (Some (pre @ ta # post)) w) \<and>
       strip v = [] \<longrightarrow>
       smart_button_click typing b w' =
         click_button b (snd (wait_for_typing_completion ta 30
           (print_event (Print_found_input v)
             (print_event (Print_processing (category b) (description b)) w')))))"
proof -
  have t: "type_or_text ta = asc ''text''"
    using assms(2) by (simp add: type_or_text_def)
  then have l: "text_like ta"
    using assms(3,4) by (simp add: text_like_def)
  have f: "find text_like (query_inputs (pre @ ta # post)) = Some ta"
    using assms(5) l assms(1) by (rule find_text_like_inputs)
  have r: "fst (find_associated_input (Some (pre @ ta # post)) w) =
      Some \<lparr>inp_element = ta, inp_type = asc ''text'',
        inp_placeholder =
          (case get_attribute ta (asc ''placeholder'') of None \<Rightarrow> [] | Some p \<Rightarrow> p),
        inp_value = v\<rparr>"
    using assms(6) by (simp add: find_associated_input_def f input_value_def t)
  have g: "smart_button_click typing b w' =
         click_button b (snd (wait_for_typing_completion ta 30
           (print_event (Print_found_input v)
             (print_event (Print_processing (category b) (description b)) w'))))"
    if c: "category b \<in> {asc ''submit'', asc ''search'', asc ''navigation''}"
      and a: "associated_input b = fst (find_associated_input (Some (pre @ ta # post)) w)"
      and s: "strip v = []"
    for typing b w'
  proof -
    let ?w2 = "print_event (Print_found_input v)
             (print_event (Print_processing (category b) (description b)) w')"
    obtain ok w3 where k: "wait_for_typing_completion ta 30 ?w2 = (ok, w3)"
      by (cases "wait_for_typing_completion ta 30 ?w2")
    then have "ok" using wait_True [of ta 30 ?w2] by simp
    with k c s show ?thesis
      unfolding smart_button_click_def Let_def a r by auto
  qed
  show ?thesis using t l r g by blast
qed

theorem textarea_becomes_associated_input_witness:
  "fst (find_associated_input (Some [hidden_input, message_box]) world0) =
     Some \<lparr>inp_element = message_box, inp_type = asc ''text'', inp_placeholder = asc ''msg'',
       inp_value = []\<rparr> \<and>
   trace (snd (smart_button_click (\<lambda>w. False)
     (button_record (field (\<lambda>w. Raises)) (asc ''go'') (asc ''go     '') (asc ''submit'')
        (asc ''button'')
        (fst (find_associated_input (Some [hidden_input, message_box]) world0)))
     world0)) =
   [Print_processing (asc ''submit'') (asc ''Form Submit Button''), Print_found_input [],
    Print_waiting, Print_field_empty, Print_no_typing, Print_clicking (asc ''submit''),
    Do_click (asc ''go''), Print_clicked (asc ''submit'')]"
proof -
  define inp where "inp = fst (find_associated_input (Some [hidden_input, message_box]) world0)"
  define b where "b = button_record (field (\<lambda>w. Raises)) (asc ''go'') (asc ''go     '')
        (asc ''submit'') (asc ''button'') inp"
  have h1: "el_tag message_box = asc ''textarea''" by (simp add: message_box_def)
  have h2: "get_attribute message_box (asc ''type'') = None"
    by (simp add: message_box_def get_attribute_def asc_def)
  have h3: "el_visible message_box" "el_enabled message_box" by (simp_all add: message_box_def)
  have h5: "\<forall>e\<in>set [hidden_input].
      \<not> (text_like e \<and> (el_tag e = asc ''input'' \<or> el_tag e = asc ''textarea''))"
    by (simp add: hidden_input_def text_like_def)
  have h6: "el_value message_box world0 = Value []" by (simp add: message_box_def)
  note t = textarea_becomes_associated_input [OF h1 h2 h3 h5 h6, of "[]"]
  have p: "(case get_attribute message_box (asc ''placeholder'') of None \<Rightarrow> [] | Some p \<Rightarrow> p) =
      asc ''msg''"
    by (simp add: message_box_def get_attribute_def)
  have r: "inp =
     Some \<lparr>inp_element = message_box, inp_type = asc ''text'', inp_placeholder = asc ''msg'',
       inp_value = []\<rparr>"
    using t p by (simp add: inp_def)
  have d: "categorize_button (asc ''go     '') (asc ''submit'') (asc ''button'') =
      (asc ''submit'', 8, asc ''Form Submit Button'')"
    by (simp add: categorize_button_def first_pattern_def pattern_defs asc_def)
  have c: "category b = asc ''submit''" "description b = asc ''Form Submit Button''"
    "button_text b = asc ''go''" "el_click (element b) = (\<lambda>w. None)"
    "associated_input b = fst (find_associated_input (Some [hidden_input, message_box]) world0)"
    by (simp_all add: b_def button_record_def d inp_def field_def)
  have s: "strip [] = []" by (simp add: strip_def)
  have "smart_button_click (\<lambda>w. False) b world0 =
      click_button b (snd (wait_for_typing_completion message_box 30
           (print_event (Print_found_input [])
             (print_event (Print_processing (category b) (description b)) world0))))"
    using t c s by simp
  then have "trace (snd (smart_button_click (\<lambda>w. False) b world0)) =
   [Print_processing (asc ''submit'') (asc ''Form Submit Button''), Print_found_input [],
    Print_waiting, Print_field_empty, Print_no_typing, Print_clicking (asc ''submit''),
    Do_click (asc ''go''), Print_clicked (asc ''submit'')]"
    by (simp add: c click_button_def wait_for_typing_completion_def input_value_def
        print_event_def sleep_def world0_def strip_def Let_def message_box_def)
  with r show ?thesis by (simp add: b_def inp_def)
qed

section \<open>Facts about the selector path\<close>

lemma path_loop_length:
  "length path_parts \<le> 5 \<Longrightarrow> length (path_loop current path_parts) \<le> 6"
  by (induction current path_parts rule: path_loop.induct)
     (auto simp: Let_def split: option.splits)

lemma path_loop_prefix: "\<exists>more. path_loop current path_parts = path_parts @ more"
  by (induction current path_parts rule: path_loop.induct)
     (auto simp: Let_def split: option.splits)

lemma path_loop_stops_at_id:
  assumes "chain current = pre @ a # post"
    and "\<forall>t\<in>set pre. attr t (asc ''id'') = None \<and> name t \<noteq> []"
    and "attr a (asc ''id'') = Some i" and "name a \<noteq> []"
    and "length path_parts + length pre \<le> 5"
  shows "path_loop current path_parts =
         path_parts @ map class_descriptor pre @ [name a @ asc ''#'' @ i]"
  using assms
proof (induction pre arbitrary: current path_parts)
  case Nil
  then obtain nm ats cls tx par where c: "current = Some (Tag nm ats cls tx par)"
    by (cases current rule: chain.cases) auto
  with Nil show ?case by (auto simp: attr_def)
next
  case (Cons x pre)
  then obtain nm ats cls tx par where c: "current = Some (Tag nm ats cls tx par)"
    by (cases current rule: chain.cases) auto
  with Cons.prems have x: "x = Tag nm ats cls tx par" and r: "chain par = pre @ a # post"
    by auto
  have n: "nm \<noteq> []" "map_of ats (asc ''id'') = None"
    using Cons.prems(2) x by (auto simp: attr_def)
  have l: "length (path_parts @ [class_descriptor x]) + length pre \<le> 5"
    using Cons.prems(5) by simp
  have "path_loop par (path_parts @ [class_descriptor x]) =
      (path_parts @ [class_descriptor x]) @ map class_descriptor pre @ [name a @ asc ''#'' @ i]"
    using Cons.IH [OF r _ Cons.prems(3,4) l] Cons.prems(2) by simp
  then show ?case
    using c x n Cons.prems(5) by (simp add: Let_def)
qed

lemma nest_five:
  "nest 5 nm outer =
   Some (Tag nm [] None [] (Some (Tag nm [] None [] (Some (Tag nm [] None []
     (Some (Tag nm [] None [] (Some (Tag nm [] None [] outer)))))))))"
  by (simp add: eval_nat_numeral)

lemma descriptor_no_id: "attr t (asc ''id'') = None \<Longrightarrow> descriptor t = class_descriptor t"
  by (simp add: descriptor_def)

lemma descriptor_id: "attr t (asc ''id'') = Some i \<Longrightarrow> descriptor t = name t @ asc ''#'' @ i"
  by (simp add: descriptor_def)

lemma path_loop_chain:
  "length path_parts \<le> 5 \<Longrightarrow>
   \<exists>k. length path_parts + k \<le> 6 \<and>
       path_loop current path_parts = path_parts @ map descriptor (take k (chain current))"
proof (induction current path_parts rule: path_loop.induct)
  case (1 path_parts)
  have "length path_parts + 0 \<le> 6 \<and>
      path_loop None path_parts = path_parts @ map descriptor (take 0 (chain None))"
    using 1 by simp
  then show ?case by blast
next
  case (2 nm ats cls tx par path_parts)
  let ?t = "Tag nm ats cls tx par"
  show ?case
  proof (cases "nm = []")
    case True
    have "length path_parts + 0 \<le> 6 \<and>
      path_loop (Some ?t) path_parts = path_parts @ map descriptor (take 0 (chain (Some ?t)))"
      using 2(2) True by simp
    then show ?thesis by blast
  next
    case False
    show ?thesis
    proof (cases "map_of ats (asc ''id'')")
      case (Some i)
      have "length path_parts + 1 \<le> 6 \<and>
        path_loop (Some ?t) path_parts = path_parts @ map descriptor (take 1 (chain (Some ?t)))"
        using 2(2) False Some by (simp add: descriptor_def attr_def)
      then show ?thesis by blast
    next
      case None
      have d: "descriptor ?t = class_descriptor ?t"
        using None by (simp add: descriptor_def attr_def)
      show ?thesis
      proof (cases "length path_parts = 5")
        case True
        have "length path_parts + 1 \<le> 6 \<and>
          path_loop (Some ?t) path_parts = path_parts @ map descriptor (take 1 (chain (Some ?t)))"
          using True False None d by (simp add: Let_def)
        then show ?thesis by blast
      next
        case short: False
        then have l: "length (path_parts @ [class_descriptor ?t]) \<le> 5"
          using 2(2) by simp
        have n: "\<not> 5 < length (path_parts @ [class_descriptor ?t])" using l by simp
        obtain k where k: "length (path_parts @ [class_descriptor ?t]) + k \<le> 6"
          "path_loop par (path_parts @ [class_descriptor ?t]) =
             (path_parts @ [class_descriptor ?t]) @ map descriptor (take k (chain par))"
          using 2(1) [OF False None refl n l] by blast
        have "length path_parts + Suc k \<le> 6 \<and>
          path_loop (Some ?t) path_parts =
            path_parts @ map descriptor (take (Suc k) (chain (Some ?t)))"
          using k False None d n by (simp add: Let_def)
        then show ?thesis by blast
      qed
    qed
  qed
qed

section \<open>Facts about the text tests\<close>

lemma first_test_tests:
  "first_test (text_tests U lowered plain) =
    (if search_words U login_words lowered then Some (asc ''login'')
     else if search_words U search_word_list lowered then Some (asc ''search'')
     else if search_words U submit_words lowered then Some (asc ''submit'')
     else if search_words U cancel_words lowered then Some (asc ''cancel'')
     else if search_digits U plain then Some (asc ''numeric'')
     else if search_email plain then Some (asc ''email'')
     else if startswith plain (asc ''http'') then Some (asc ''url'')
     else None)"
  by (simp add: first_test_def text_tests_def)

lemma text_type_classify:
  "txt \<noteq> [] \<Longrightarrow>
   text_type (extract_semantic_info U (Tag nm ats cls txt par)) = classify_text U txt"
  by (simp add: extract_semantic_info_def Let_def)

lemmas ascii_defs = ascii_tables_def ascii_lower_def search_words_def boundary_def word_char_def
  first_char_def word_here_def
  search_digits_def login_words_def search_word_list_def submit_words_def cancel_words_def

lemma classify_first_test:
  "classify_text U plain = first_test (text_tests U (lower U plain) plain)"
  by (simp only: classify_text_def first_test_tests)

section \<open>The page analyzer: claims\<close>

text \<open>
  Claim C3, as stated: the hierarchical path holds at most 5 descriptors and stops at the
  first tag that bears an id. The loop tests the length after it has appended a
  descriptor and moved to the parent, and leaves when the length exceeds 5, so a path can
  hold 6 descriptors. From the innermost of six nested \<open>div\<close> tags inside
  \<open>body#main\<close> the path is six times \<open>div\<close>; the tag with the id is not reached.
\<close>

theorem hierarchical_path_six_counterexample:
  "path_parts_of (generate_advanced_selector six_divs) =
     [asc ''div'', asc ''div'', asc ''div'', asc ''div'', asc ''div'', asc ''div''] \<and>
   length (path_parts_of (generate_advanced_selector six_divs)) = 6 \<and>
   hierarchical_path (generate_advanced_selector six_divs) =
     asc ''div > div > div > div > div > div''"
  by (simp add: generate_advanced_selector_def six_divs_def body_main_def class_descriptor_def
      Let_def nest_five asc_def)

text \<open>
  Claim C3, amended: the path holds at most 6 descriptors, those of the element itself
  and of at most 5 ancestors, in order, and \<open>hierarchical_path\<close> joins them outermost
  first. When the first tag bearing an id, counted from the element itself, is among the
  first 6 tags of the chain and the tags before it have names, path construction stops
  there: that tag is rendered as \<open>tag#id\<close>, the tags before it as \<open>tag.firstclass\<close> or
  bare \<open>tag\<close>, and no tag above it appears in the path.
\<close>

theorem hierarchical_path_bounded:
  "length (path_parts_of (generate_advanced_selector e)) \<le> 6 \<and>
   (\<exists>k. k \<le> 6 \<and>
      path_parts_of (generate_advanced_selector e) = map descriptor (take k (chain (Some e)))) \<and>
   hierarchical_path (generate_advanced_selector e) =
     join (asc '' > '') (rev (path_parts_of (generate_advanced_selector e))) \<and>
   (chain (Some e) = pre @ a # post \<and>
    (\<forall>t\<in>set pre. attr t (asc ''id'') = None \<and> name t \<noteq> []) \<and>
    attr a (asc ''id'') = Some i \<and> name a \<noteq> [] \<and> length pre \<le> 5 \<longrightarrow>
      path_parts_of (generate_advanced_selector e) = map descriptor (pre @ [a]) \<and>
      descriptor a = name a @ asc ''#'' @ i)"
proof -
  have p: "path_parts_of (generate_advanced_selector e) = path_loop (Some e) []"
    by (simp add: generate_advanced_selector_def Let_def)
  have "length (path_loop (Some e) []) \<le> 6"
    by (rule path_loop_length) simp
  moreover have "\<exists>k. k \<le> 6 \<and> path_loop (Some e) [] = map descriptor (take k (chain (Some e)))"
    using path_loop_chain [of "[]" "Some e"] by simp
  moreover have "hierarchical_path (generate_advanced_selector e) =
     join (asc '' > '') (rev (path_loop (Some e) []))"
    by (simp add: generate_advanced_selector_def Let_def)
  moreover have "path_loop (Some e) [] = map descriptor (pre @ [a]) \<and>
      descriptor a = name a @ asc ''#'' @ i"
    if h: "chain (Some e) = pre @ a # post"
      "\<forall>t\<in>set pre. attr t (asc ''id'') = None \<and> name t \<noteq> []"
      "attr a (asc ''id'') = Some i" "name a \<noteq> []" "length pre \<le> 5"
  proof -
    have "map descriptor pre = map class_descriptor pre"
      using h(2) by (simp add: descriptor_no_id)
    then show ?thesis
      using path_loop_stops_at_id [OF h(1-4), of "[]"] h(5) descriptor_id [OF h(3)] by simp
  qed
  ultimately show ?thesis unfolding p by blast
qed

theorem hierarchical_path_bounded_witness:
  "chain (Some inner_p) = [inner_p, outer_p] @ body_main # [Tag (asc ''html'') [] None [] None] \<and>
   path_parts_of (generate_advanced_selector inner_p) =
     [asc ''p.k'', asc ''p'', asc ''body#main''] \<and>
   hierarchical_path (generate_advanced_selector inner_p) = asc ''body#main > p > p.k''"
proof -
  have c: "chain (Some inner_p) =
      [inner_p, outer_p] @ body_main # [Tag (asc ''html'') [] None [] None]"
    by (simp add: inner_p_def outer_p_def body_main_def)
  have h: "\<forall>t\<in>set [inner_p, outer_p]. attr t (asc ''id'') = None \<and> name t \<noteq> []"
    by (simp add: inner_p_def outer_p_def attr_def asc_def)
  have a: "attr body_main (asc ''id'') = Some (asc ''main'')" "name body_main \<noteq> []"
    by (simp_all add: body_main_def attr_def asc_def)
  have l: "length [inner_p, outer_p] \<le> 5" by simp
  have d: "map descriptor ([inner_p, outer_p] @ [body_main]) =
      [asc ''p.k'', asc ''p'', asc ''body#main'']"
    by (simp add: descriptor_def attr_def class_descriptor_def inner_p_def outer_p_def
        body_main_def asc_def)
  have p: "path_parts_of (generate_advanced_selector inner_p) =
     [asc ''p.k'', asc ''p'', asc ''body#main'']"
    using hierarchical_path_bounded [of inner_p "[inner_p, outer_p]" body_main
        "[Tag (asc ''html'') [] None [] None]" "asc ''main''"] c h a l d
    by simp
  have "hierarchical_path (generate_advanced_selector inner_p) =
      join (asc '' > '') (rev (path_parts_of (generate_advanced_selector inner_p)))"
    using hierarchical_path_bounded [of inner_p "[]" inner_p "[]" "[]"] by blast
  then have "hierarchical_path (generate_advanced_selector inner_p) = asc ''body#main > p > p.k''"
    by (simp add: p asc_def)
  with c p show ?thesis by blast
qed

text \<open>
  Claim C8, as stated: every one of the seven tests reads the lower-cased text. The
  program lower-cases the text for the four keyword tests only; the digit test, the
  e-mail test and the \<open>http\<close> test read the text as it is. So \<open>HTTP://X\<close> and
  \<open>ME@X.ORG\<close> get no type, where tests on the lower-cased text would say \<open>url\<close> and
  \<open>email\<close>.
\<close>

theorem text_type_upper_case_counterexample:
  "text_type (extract_semantic_info ascii_tables (Tag (asc ''a'') [] None (asc ''HTTP://X'') None)) =
     None \<and>
   spec_text_type ascii_tables (asc ''HTTP://X'') = Some (asc ''url'') \<and>
   text_type (extract_semantic_info ascii_tables (Tag (asc ''span'') [] None (asc ''ME@X.ORG'') None)) =
     None \<and>
   spec_text_type ascii_tables (asc ''ME@X.ORG'') = Some (asc ''email'')"
proof -
  have n: "asc ''HTTP://X'' \<noteq> []" "asc ''ME@X.ORG'' \<noteq> []" by (simp_all add: asc_def)
  have a: "classify_text ascii_tables (asc ''HTTP://X'') = None"
    by (simp add: classify_text_def ascii_defs asc_def)
  have b: "spec_text_type ascii_tables (asc ''HTTP://X'') = Some (asc ''url'')"
    by (simp add: spec_text_type_def first_test_tests ascii_defs asc_def)
  have c: "classify_text ascii_tables (asc ''ME@X.ORG'') = None"
    by (simp add: classify_text_def ascii_defs asc_def)
  have d: "spec_text_type ascii_tables (asc ''ME@X.ORG'') = Some (asc ''email'')"
    by (simp add: spec_text_type_def first_test_tests ascii_defs asc_def)
  show ?thesis
    by (simp only: text_type_classify [OF n(1)] text_type_classify [OF n(2)] a b c d simp_thms)
qed

text \<open>
  Claim C8, amended: for every element with non-empty text (the element's own text,
  stripped), \<open>text_type\<close> is decided by the first matching test in the fixed order
  login, search, submit, cancel (word patterns, on the lower-cased text), then entirely
  digits, e-mail-like substring, starts with \<open>http\<close> (on the text as it is); when no
  test matches, \<open>text_type\<close> is left unset. On a text that lower-casing leaves unchanged
  this is the specification's scan of the lower-cased text.
\<close>

theorem text_type_first_match:
  "(get_text_strip e \<noteq> [] \<longrightarrow>
      text_type (extract_semantic_info U e) =
        first_test (text_tests U (lower U (get_text_strip e)) (get_text_strip e))) \<and>
   (get_text_strip e \<noteq> [] \<and> lower U (get_text_strip e) = get_text_strip e \<longrightarrow>
      text_type (extract_semantic_info U e) = spec_text_type U (get_text_strip e))"
proof (cases e)
  case (Tag nm ats cls tx par)
  have a: "text_type (extract_semantic_info U e) =
      first_test (text_tests U (lower U tx) tx)" if "tx \<noteq> []"
    unfolding Tag text_type_classify [OF that] by (rule classify_first_test)
  have b: "spec_text_type U tx = first_test (text_tests U (lower U tx) tx)"
    if "lower U tx = tx"
    unfolding spec_text_type_def that ..
  have g: "get_text_strip e = tx" by (simp add: Tag)
  show ?thesis unfolding g using a b by metis
qed

theorem text_type_first_match_witness:
  "text_type (extract_semantic_info ascii_tables
      (Tag (asc ''button'') [] None (asc ''Close search'') None)) = Some (asc ''search'') \<and>
   text_type (extract_semantic_info ascii_tables
      (Tag (asc ''span'') [] None (asc ''me@x.org'') None)) = Some (asc ''email'') \<and>
   spec_text_type ascii_tables (asc ''me@x.org'') = Some (asc ''email'')"
proof -
  let ?b = "Tag (asc ''button'') [] None (asc ''Close search'') None"
  let ?s = "Tag (asc ''span'') [] None (asc ''me@x.org'') None"
  have n: "get_text_strip ?b \<noteq> []" "get_text_strip ?s \<noteq> []"
    by (simp_all add: asc_def)
  have l: "lower ascii_tables (get_text_strip ?s) = get_text_strip ?s"
    by (simp add: ascii_tables_def ascii_lower_def asc_def)
  have a: "first_test (text_tests ascii_tables (lower ascii_tables (get_text_strip ?b))
      (get_text_strip ?b)) = Some (asc ''search'')"
    by (simp add: first_test_tests ascii_defs asc_def)
  have b: "spec_text_type ascii_tables (get_text_strip ?s) = Some (asc ''email'')"
    by (simp add: spec_text_type_def first_test_tests ascii_defs asc_def)
  have "text_type (extract_semantic_info ascii_tables ?b) = Some (asc ''search'')"
    using text_type_first_match [of ?b ascii_tables] n(1) a by metis
  moreover have "text_type (extract_semantic_info ascii_tables ?s) = Some (asc ''email'')"
    using text_type_first_match [of ?s ascii_tables] n(2) l b by metis
  moreover have "spec_text_type ascii_tables (asc ''me@x.org'') = Some (asc ''email'')"
    using b by simp
  ultimately show ?thesis by blast
qed

end
